theory Spec2Isabelle
  imports Main "HOL-Library.Word"
begin

unbundle bit_operations_syntax

section \<open>Platform constants\<close>

text \<open>
  The sources include the system headers for these values; they are the Darwin ones
  (\<^verbatim>\<open>sys/syslimits.h\<close>, \<^verbatim>\<open>sys/errno.h\<close>, \<^verbatim>\<open>sys/fcntl.h\<close>, \<^verbatim>\<open>sys/stat.h\<close>,
  \<^verbatim>\<open>sys/param.h\<close>).
\<close>

type_synonym path = string
type_synonym mode_t = "16 word"
type_synonym oflags = "32 word"

definition PATH_MAX :: nat where "PATH_MAX = 1024"
definition NAME_MAX :: nat where "NAME_MAX = 255"
definition MAXBSIZE :: nat where "MAXBSIZE = 1048576"

definition ELAST :: int where "ELAST = 103"
definition EPERM :: int where "EPERM = 1"
definition ENOENT :: int where "ENOENT = 2"
definition EIO :: int where "EIO = 5"
definition EBADF :: int where "EBADF = 9"
definition EEXIST :: int where "EEXIST = 17"
definition EXDEV :: int where "EXDEV = 18"
definition ENOTDIR :: int where "ENOTDIR = 20"
definition EISDIR :: int where "EISDIR = 21"
definition EINVAL :: int where "EINVAL = 22"
definition ENOTEMPTY :: int where "ENOTEMPTY = 66"

definition O_RDONLY :: oflags where "O_RDONLY = 0"
definition O_WRONLY :: oflags where "O_WRONLY = 1"
definition O_RDWR :: oflags where "O_RDWR = 2"
definition O_ACCMODE :: oflags where "O_ACCMODE = 3"
definition O_CREAT :: oflags where "O_CREAT = 0x200"
definition O_EXCL :: oflags where "O_EXCL = 0x800"

definition S_IFMT :: mode_t where "S_IFMT = 0xF000"
definition S_IFDIR :: mode_t where "S_IFDIR = 0x4000"
definition S_IFREG :: mode_t where "S_IFREG = 0x8000"
definition S_IWUSR :: mode_t where "S_IWUSR = 0x80"
definition S_IXUSR :: mode_t where "S_IXUSR = 0x40"
definition S_IRGRP :: mode_t where "S_IRGRP = 0x20"
definition S_IWGRP :: mode_t where "S_IWGRP = 0x10"
definition S_IXGRP :: mode_t where "S_IXGRP = 0x08"
definition S_IROTH :: mode_t where "S_IROTH = 0x04"
definition S_IWOTH :: mode_t where "S_IWOTH = 0x02"
definition S_IXOTH :: mode_t where "S_IXOTH = 0x01"

section \<open>Bounded path buffers\<close>

text \<open>
  \<^verbatim>\<open>pathcpy(dst, src)\<close> and \<^verbatim>\<open>pathcat(dst, src)\<close> are the macros of
  update_boot.c and bootcaches.c: \<^verbatim>\<open>strlcpy\<close>/\<^verbatim>\<open>strlcat\<close> into a
  \<^verbatim>\<open>PATH_MAX\<close> buffer, with \<^verbatim>\<open>goto finish\<close> when the result would not fit.
  \<open>None\<close> is that jump.
\<close>

definition strlcpy :: "string \<Rightarrow> nat \<Rightarrow> nat \<times> string" where
  "strlcpy src n = (length src, take (n - 1) src)"

definition strlcat :: "string \<Rightarrow> string \<Rightarrow> nat \<Rightarrow> nat \<times> string" where
  "strlcat dst src n =
     (if length dst \<ge> n then (n + length src, dst)
      else (length dst + length src, dst @ take (n - 1 - length dst) src))"

definition pathcpy :: "path \<Rightarrow> path option" where
  "pathcpy src = (if length src \<ge> PATH_MAX then None else Some src)"

definition pathcat :: "path \<Rightarrow> path \<Rightarrow> path option" where
  "pathcat dst src = (if length dst + length src \<ge> PATH_MAX then None else Some (dst @ src))"

section \<open>libc path helpers\<close>

text \<open>\<^verbatim>\<open>dirname(3)\<close> and \<^verbatim>\<open>basename(3)\<close>, as POSIX describes them.\<close>

definition is_slash :: "char \<Rightarrow> bool" where
  "is_slash c \<longleftrightarrow> c = CHR ''/''"

definition strip_slashes :: "path \<Rightarrow> path" where
  "strip_slashes p = rev (dropWhile is_slash (rev p))"

definition basename :: "path \<Rightarrow> path" where
  "basename p =
     (if p = [] then ''.''
      else let q = strip_slashes p in
        if q = [] then ''/''
        else rev (takeWhile (\<lambda>c. \<not> is_slash c) (rev q)))"

definition dirname :: "path \<Rightarrow> path" where
  "dirname p =
     (if p = [] then ''.''
      else let q = strip_slashes p in
        if q = [] then ''/''
        else let d = rev (dropWhile (\<lambda>c. \<not> is_slash c) (rev q)) in
          if d = [] then ''.''
          else let d' = strip_slashes d in
            if d' = [] then ''/'' else d')"

section \<open>The kernel: a small file system\<close>

text \<open>
  The system calls are not part of the repository. They are modelled by a deterministic
  file system: objects are keyed by canonical absolute path, every object carries the
  device it lives on, the working directory is a directory together with its device, and
  open descriptors remember the device of the object and of the directory it was found in.
  Failing calls return -1 and set \<open>errno\<close>. \<open>faults\<close> injects I/O errors for
  \<^verbatim>\<open>stat\<close> and \<^verbatim>\<open>open\<close> on chosen paths. Every call of \<^verbatim>\<open>open\<close> is
  recorded in \<open>olog\<close> with the flags it received; every change of the file system is
  recorded in \<open>mlog\<close> with the device of the directory that contains the changed entry.
\<close>

record timespec =
  tv_sec :: int
  tv_nsec :: int

record inode =
  st_dev :: nat
  st_ino :: nat
  st_mode :: mode_t
  st_atimespec :: timespec
  st_mtimespec :: timespec
  i_data :: string

definition st_size :: "inode \<Rightarrow> nat" where
  "st_size n = length (i_data n)"

definition is_dir :: "inode \<Rightarrow> bool" where
  "is_dir n \<longleftrightarrow> st_mode n AND S_IFMT = S_IFDIR"

record ofile =
  of_dev :: nat
  of_path :: path
  of_pdev :: nat
  of_isdir :: bool
  of_flags :: oflags
  of_pos :: nat

datatype kop =
    OpCreate | OpMkdir | OpRmdir | OpUnlink | OpRename path
  | OpWrite | OpChmod | OpFutimes | OpFullFsync | OpSetXattr string | OpBless nat nat

type_synonym event = "kop \<times> nat \<times> path"

record kstate =
  nodes :: "(path \<times> inode) list"
  cwd :: path
  cwd_dev :: nat
  fds :: "(int \<times> ofile) list"
  nextino :: nat
  errno :: int
  faults :: "path \<Rightarrow> int option"
  olog :: "(path \<times> oflags) list"
  mlog :: "event list"

definition lookup :: "kstate \<Rightarrow> path \<Rightarrow> inode option" where
  "lookup k p = map_of (nodes k) p"

definition put_node :: "path \<Rightarrow> inode \<Rightarrow> kstate \<Rightarrow> kstate" where
  "put_node p n k = k\<lparr>nodes := (p, n) # filter (\<lambda>(q, _). q \<noteq> p) (nodes k)\<rparr>"

definition del_node :: "path \<Rightarrow> kstate \<Rightarrow> kstate" where
  "del_node p k = k\<lparr>nodes := filter (\<lambda>(q, _). q \<noteq> p) (nodes k)\<rparr>"

definition kfail :: "int \<Rightarrow> kstate \<Rightarrow> int \<times> kstate" where
  "kfail e k = (-1, k\<lparr>errno := e\<rparr>)"

definition simple_name :: "path \<Rightarrow> bool" where
  "simple_name p \<longleftrightarrow> p \<noteq> [] \<and> CHR ''/'' \<notin> set p \<and> p \<noteq> ''.'' \<and> p \<noteq> ''..''"

definition join_path :: "path \<Rightarrow> path \<Rightarrow> path" where
  "join_path d c = (if d = ''/'' then d @ c else d @ ''/'' @ c)"

definition resolve :: "kstate \<Rightarrow> path \<Rightarrow> path" where
  "resolve k p =
     (if p = ''.'' then cwd k
      else if p \<noteq> [] \<and> hd p = CHR ''/'' then p
      else join_path (cwd k) p)"

text \<open>
  The device of the directory that contains the entry a path names: for a plain name it is
  the working directory, whatever the path table says; otherwise the directory is looked up.
\<close>

definition parent_dev :: "kstate \<Rightarrow> path \<Rightarrow> nat option" where
  "parent_dev k p =
     (if simple_name p then Some (cwd_dev k)
      else if p = [] \<or> strip_slashes p = [] \<or> basename p = ''.'' \<or> basename p = ''..''
        then None
      else case lookup k (dirname (resolve k p)) of
             None \<Rightarrow> None
           | Some d \<Rightarrow> if is_dir d then Some (st_dev d) else None)"

text \<open>A name under which a new entry can be made.\<close>

definition valid_new :: "path \<Rightarrow> bool" where
  "valid_new p \<longleftrightarrow>
     p \<noteq> [] \<and> \<not> is_slash (last p) \<and> basename p \<noteq> ''.'' \<and> basename p \<noteq> ''..''"

definition fd_lookup :: "kstate \<Rightarrow> int \<Rightarrow> ofile option" where
  "fd_lookup k fd = map_of (fds k) fd"

text \<open>A descriptor that is not in use; it is never negative.\<close>

definition fresh_fd :: "kstate \<Rightarrow> int" where
  "fresh_fd k = foldr (\<lambda>(fd, _) m. max (fd + 1) m) (fds k) 0"

definition alloc_fd :: "ofile \<Rightarrow> kstate \<Rightarrow> int \<times> kstate" where
  "alloc_fd f k = (fresh_fd k, k\<lparr>fds := (fresh_fd k, f) # fds k\<rparr>)"

definition set_fd :: "int \<Rightarrow> ofile \<Rightarrow> kstate \<Rightarrow> kstate" where
  "set_fd fd f k = k\<lparr>fds := (fd, f) # filter (\<lambda>(n, _). n \<noteq> fd) (fds k)\<rparr>"

definition log_event :: "event \<Rightarrow> kstate \<Rightarrow> kstate" where
  "log_event e k = k\<lparr>mlog := mlog k @ [e]\<rparr>"

definition t0 :: timespec where
  "t0 = \<lparr>tv_sec = 0, tv_nsec = 0\<rparr>"

definition new_inode :: "nat \<Rightarrow> nat \<Rightarrow> mode_t \<Rightarrow> inode" where
  "new_inode d i m =
     \<lparr>st_dev = d, st_ino = i, st_mode = m, st_atimespec = t0, st_mtimespec = t0, i_data = []\<rparr>"

definition accmode :: "oflags \<Rightarrow> oflags" where
  "accmode flags = flags AND O_ACCMODE"

definition k_open :: "kstate \<Rightarrow> path \<Rightarrow> oflags \<Rightarrow> mode_t \<Rightarrow> int \<times> kstate" where
  "k_open k0 p flags mode =
     (let k = k0\<lparr>olog := olog k0 @ [(p, flags)]\<rparr>; rp = resolve k p in
      if p = ''.'' then
        (if flags AND O_CREAT \<noteq> 0 \<and> flags AND O_EXCL \<noteq> 0 then kfail EEXIST k
         else if accmode flags \<noteq> O_RDONLY then kfail EISDIR k
         else alloc_fd \<lparr>of_dev = cwd_dev k, of_path = cwd k, of_pdev = cwd_dev k,
                of_isdir = True, of_flags = flags, of_pos = 0\<rparr> k)
      else case faults k rp of
        Some e \<Rightarrow> kfail e k
      | None \<Rightarrow>
         (case lookup k rp of
            Some n \<Rightarrow>
              if flags AND O_CREAT \<noteq> 0 \<and> flags AND O_EXCL \<noteq> 0 then kfail EEXIST k
              else if is_dir n \<and> accmode flags \<noteq> O_RDONLY then kfail EISDIR k
              else alloc_fd \<lparr>of_dev = st_dev n, of_path = rp,
                     of_pdev = (case parent_dev k p of Some d \<Rightarrow> d | None \<Rightarrow> st_dev n),
                     of_isdir = is_dir n, of_flags = flags, of_pos = 0\<rparr> k
          | None \<Rightarrow>
              if flags AND O_CREAT = 0 then kfail ENOENT k
              else if \<not> valid_new p then kfail EINVAL k
              else (case parent_dev k p of
                      None \<Rightarrow> kfail ENOENT k
                    | Some d \<Rightarrow>
                        alloc_fd \<lparr>of_dev = d, of_path = rp, of_pdev = d, of_isdir = False,
                            of_flags = flags, of_pos = 0\<rparr>
                          (log_event (OpCreate, d, rp)
                            (put_node rp (new_inode d (nextino k) (S_IFREG OR (mode AND NOT S_IFMT)))
                              (k\<lparr>nextino := nextino k + 1\<rparr>))))))"

definition k_close :: "kstate \<Rightarrow> int \<Rightarrow> int \<times> kstate" where
  "k_close k fd =
     (case fd_lookup k fd of
        None \<Rightarrow> kfail EBADF k
      | Some _ \<Rightarrow> (0, k\<lparr>fds := filter (\<lambda>(n, _). n \<noteq> fd) (fds k)\<rparr>))"

definition k_fstat :: "kstate \<Rightarrow> int \<Rightarrow> inode option \<times> kstate" where
  "k_fstat k fd =
     (case fd_lookup k fd of
        None \<Rightarrow> (None, k\<lparr>errno := EBADF\<rparr>)
      | Some f \<Rightarrow>
         (Some (case lookup k (of_path f) of
                  Some n \<Rightarrow> n\<lparr>st_dev := of_dev f\<rparr>
                | None \<Rightarrow> new_inode (of_dev f) 0 (if of_isdir f then S_IFDIR else S_IFREG)), k))"

definition k_fchdir :: "kstate \<Rightarrow> int \<Rightarrow> int \<times> kstate" where
  "k_fchdir k fd =
     (case fd_lookup k fd of
        None \<Rightarrow> kfail EBADF k
      | Some f \<Rightarrow>
          if of_isdir f then (0, k\<lparr>cwd := of_path f, cwd_dev := of_dev f\<rparr>)
          else kfail ENOTDIR k)"

definition has_children :: "kstate \<Rightarrow> path \<Rightarrow> bool" where
  "has_children k rp = list_ex (\<lambda>(q, _). q \<noteq> rp \<and> dirname q = rp) (nodes k)"

definition k_mkdir :: "kstate \<Rightarrow> path \<Rightarrow> mode_t \<Rightarrow> int \<times> kstate" where
  "k_mkdir k p mode =
     (let rp = resolve k p in
      if p = [] then kfail ENOENT k
      else if \<not> valid_new p then kfail EEXIST k
      else case lookup k rp of
        Some _ \<Rightarrow> kfail EEXIST k
      | None \<Rightarrow>
         (case parent_dev k p of
            None \<Rightarrow> kfail ENOENT k
          | Some d \<Rightarrow>
              (0, log_event (OpMkdir, d, rp)
                    (put_node rp (new_inode d (nextino k) (S_IFDIR OR (mode AND NOT S_IFMT)))
                      (k\<lparr>nextino := nextino k + 1\<rparr>)))))"

definition k_rmdir :: "kstate \<Rightarrow> path \<Rightarrow> int \<times> kstate" where
  "k_rmdir k p =
     (let rp = resolve k p in
      if p = ''.'' then kfail EINVAL k
      else case lookup k rp of
        None \<Rightarrow> kfail ENOENT k
      | Some n \<Rightarrow>
          if \<not> is_dir n then kfail ENOTDIR k
          else if has_children k rp then kfail ENOTEMPTY k
          else (case parent_dev k p of
                  None \<Rightarrow> kfail EINVAL k
                | Some d \<Rightarrow> (0, log_event (OpRmdir, d, rp) (del_node rp k))))"

definition k_unlink :: "kstate \<Rightarrow> path \<Rightarrow> int \<times> kstate" where
  "k_unlink k p =
     (let rp = resolve k p in
      case lookup k rp of
        None \<Rightarrow> kfail ENOENT k
      | Some n \<Rightarrow>
          if is_dir n then kfail EPERM k
          else (case parent_dev k p of
                  None \<Rightarrow> kfail EINVAL k
                | Some d \<Rightarrow> (0, log_event (OpUnlink, d, rp) (del_node rp k))))"

definition under :: "path \<Rightarrow> path \<Rightarrow> bool" where
  "under d q \<longleftrightarrow> take (length d + 1) q = d @ ''/''"

definition retarget :: "path \<Rightarrow> path \<Rightarrow> path \<Rightarrow> path" where
  "retarget ro rn q =
     (if q = ro then rn else if under ro q then rn @ drop (length ro) q else q)"

definition k_rename :: "kstate \<Rightarrow> path \<Rightarrow> path \<Rightarrow> int \<times> kstate" where
  "k_rename k old new =
     (let ro = resolve k old; rn = resolve k new in
      case lookup k ro of
        None \<Rightarrow> kfail ENOENT k
      | Some n \<Rightarrow>
         (case (parent_dev k old, parent_dev k new) of
            (Some d1, Some d2) \<Rightarrow>
              if d1 \<noteq> d2 then kfail EXDEV k
              else if \<not> valid_new new \<or> under ro rn then kfail EINVAL k
              else if ro = rn then (0, k)
              else (case lookup k rn of
                      Some m \<Rightarrow>
                        if is_dir n \<and> \<not> is_dir m then kfail ENOTDIR k
                        else if \<not> is_dir n \<and> is_dir m then kfail EISDIR k
                        else if has_children k rn then kfail ENOTEMPTY k
                        else (0, log_event (OpRename rn, d1, ro)
                                (k\<lparr>nodes := map (\<lambda>(q, x). (retarget ro rn q, x))
                                     (filter (\<lambda>(q, _). q \<noteq> rn) (nodes k))\<rparr>))
                    | None \<Rightarrow>
                        (0, log_event (OpRename rn, d1, ro)
                              (k\<lparr>nodes := map (\<lambda>(q, x). (retarget ro rn q, x)) (nodes k)\<rparr>)))
          | _ \<Rightarrow> kfail ENOENT k))"

definition k_read :: "kstate \<Rightarrow> int \<Rightarrow> nat \<Rightarrow> (int \<times> string) \<times> kstate" where
  "k_read k fd n =
     (case fd_lookup k fd of
        None \<Rightarrow> ((-1, []), k\<lparr>errno := EBADF\<rparr>)
      | Some f \<Rightarrow>
          if accmode (of_flags f) = O_WRONLY then ((-1, []), k\<lparr>errno := EBADF\<rparr>)
          else if of_isdir f then ((-1, []), k\<lparr>errno := EISDIR\<rparr>)
          else (case lookup k (of_path f) of
                  None \<Rightarrow> ((0, []), k)
                | Some nd \<Rightarrow>
                    (let d = take n (drop (of_pos f) (i_data nd))
                     in ((int (length d), d), set_fd fd (f\<lparr>of_pos := of_pos f + length d\<rparr>) k))))"

definition k_write :: "kstate \<Rightarrow> int \<Rightarrow> string \<Rightarrow> int \<times> kstate" where
  "k_write k fd buf =
     (case fd_lookup k fd of
        None \<Rightarrow> kfail EBADF k
      | Some f \<Rightarrow>
          if accmode (of_flags f) = O_RDONLY \<or> of_isdir f then kfail EBADF k
          else (case lookup k (of_path f) of
                  None \<Rightarrow> kfail EIO k
                | Some nd \<Rightarrow>
                    (int (length buf),
                     log_event (OpWrite, of_pdev f, of_path f)
                       (set_fd fd (f\<lparr>of_pos := of_pos f + length buf\<rparr>)
                         (put_node (of_path f)
                            (nd\<lparr>i_data := take (of_pos f) (i_data nd) @ buf
                                   @ drop (of_pos f + length buf) (i_data nd)\<rparr>) k)))))"

definition k_fchmod :: "kstate \<Rightarrow> int \<Rightarrow> mode_t \<Rightarrow> int \<times> kstate" where
  "k_fchmod k fd mode =
     (case fd_lookup k fd of
        None \<Rightarrow> kfail EBADF k
      | Some f \<Rightarrow>
         (case lookup k (of_path f) of
            None \<Rightarrow> kfail EIO k
          | Some nd \<Rightarrow>
              (0, log_event (OpChmod, of_pdev f, of_path f)
                    (put_node (of_path f)
                       (nd\<lparr>st_mode := (st_mode nd AND S_IFMT) OR (mode AND NOT S_IFMT)\<rparr>) k))))"

text \<open>
  \<^verbatim>\<open>fcntl(fd, F_FULLFSYNC)\<close>, \<^verbatim>\<open>fsetxattr\<close> of the finder info of a file, and the
  bless library's \<^verbatim>\<open>BLSetVolumeFinderInfo(NULL, ".", vinfo)\<close>, which writes the two
  inode numbers into the finder info of the volume the working directory is on. An
  injected fault makes the call fail: a failing call never returns 0.
\<close>

definition k_fullfsync :: "kstate \<Rightarrow> int \<Rightarrow> int \<times> kstate" where
  "k_fullfsync k fd =
     (case fd_lookup k fd of
        None \<Rightarrow> kfail EBADF k
      | Some f \<Rightarrow>
         (case faults k (of_path f) of
            Some e \<Rightarrow> kfail e k
          | None \<Rightarrow> (0, log_event (OpFullFsync, of_pdev f, of_path f) k)))"

definition k_fsetxattr :: "kstate \<Rightarrow> int \<Rightarrow> string \<Rightarrow> int \<times> kstate" where
  "k_fsetxattr k fd v =
     (case fd_lookup k fd of
        None \<Rightarrow> kfail EBADF k
      | Some f \<Rightarrow>
         (case faults k (of_path f) of
            Some e \<Rightarrow> kfail e k
          | None \<Rightarrow> (0, log_event (OpSetXattr v, of_pdev f, of_path f) k)))"

definition BLSetVolumeFinderInfo :: "kstate \<Rightarrow> nat \<Rightarrow> nat \<Rightarrow> int \<times> kstate" where
  "BLSetVolumeFinderInfo k sysfolder efibooter_ino =
     (case faults k (cwd k) of
        Some e \<Rightarrow> (if e = 0 then EIO else e, k)
      | None \<Rightarrow> (0, log_event (OpBless sysfolder efibooter_ino, cwd_dev k, cwd k) k))"

definition k_stat :: "kstate \<Rightarrow> path \<Rightarrow> inode option \<times> kstate" where
  "k_stat k p =
     (let rp = resolve k p in
      case faults k rp of
        Some e \<Rightarrow> (None, k\<lparr>errno := e\<rparr>)
      | None \<Rightarrow>
         (case lookup k rp of
            None \<Rightarrow> (None, k\<lparr>errno := ENOENT\<rparr>)
          | Some n \<Rightarrow> (Some n, k)))"

section \<open>safecalls.c\<close>

text \<open>
  Every function takes the kernel state and returns its C result with the new state.
  \<^verbatim>\<open>kextd_error_log\<close> only writes to the log and is left out.
\<close>

definition spolicy :: "kstate \<Rightarrow> int \<Rightarrow> int \<Rightarrow> int \<times> kstate" where
  "spolicy k scopefd candfd =
     (case k_fstat k candfd of
        (None, k1) \<Rightarrow> (-1, k1)
      | (Some dirsb, k1) \<Rightarrow>
         (case k_fstat k1 scopefd of
            (None, k2) \<Rightarrow> (-1, k2)
          | (Some volsb, k2) \<Rightarrow>
              if st_dev volsb \<noteq> st_dev dirsb then (EPERM, k2) else (0, k2)))"

text \<open>
  The \<^verbatim>\<open>finish\<close> block of schdirparent: on an error the saved directory is closed, and
  closed once more through \<^verbatim>\<open>*olddir\<close>, which still holds it; the parent's descriptor is
  closed whenever it was opened.
\<close>

definition schdirparent_finish ::
  "kstate \<Rightarrow> int \<Rightarrow> int \<Rightarrow> bool \<Rightarrow> int \<Rightarrow> int \<Rightarrow> kstate" where
  "schdirparent_finish k bsderr savedir have_olddir olddir dirfd =
     (let k1 = (if bsderr \<noteq> 0 \<and> savedir \<noteq> -1 then snd (k_close k savedir) else k);
          k2 = (if bsderr \<noteq> 0 \<and> have_olddir \<and> olddir \<noteq> -1 then snd (k_close k1 olddir) else k1)
      in if dirfd \<noteq> -1 then snd (k_close k2 dirfd) else k2)"

text \<open>
  schdirparent returns \<open>(bsderr, *olddir, child)\<close>. \<open>have_olddir\<close> and \<open>have_child\<close>
  say whether the caller passed the two output pointers; the path is \<open>None\<close> for a
  null pointer.
\<close>

definition schdirparent ::
  "kstate \<Rightarrow> int \<Rightarrow> path option \<Rightarrow> bool \<Rightarrow> bool \<Rightarrow> (int \<times> int \<times> path) \<times> kstate" where
  "schdirparent k fdvol pathp have_olddir have_child =
     (case pathp of
        None \<Rightarrow> ((-1, -1, []), k)
      | Some p \<Rightarrow>
          if length (dirname p) \<ge> PATH_MAX then ((-1, -1, []), k)
          else
            (let parent = dirname p;
                 (dirfd, k1) = k_open k parent O_RDONLY 0
             in if dirfd = -1 then ((-1, -1, []), k1)
                else
                 (let (pol, k2) = spolicy k1 fdvol dirfd
                  in if pol \<noteq> 0
                     then ((-1, -1, []), schdirparent_finish k2 (-1) (-1) have_olddir (-1) dirfd)
                     else if have_child \<and> length (basename p) \<ge> PATH_MAX
                     then ((-1, -1, []), schdirparent_finish k2 (-1) (-1) have_olddir (-1) dirfd)
                     else
                      (let child = (if have_child then basename p else []);
                           (savedir, k3) =
                              (if have_olddir then k_open k2 ''.'' O_RDONLY 0 else (-1, k2))
                       in if have_olddir \<and> savedir = -1
                          then ((-1, -1, child),
                                schdirparent_finish k3 (-1) (-1) have_olddir (-1) dirfd)
                          else
                           (let (bsderr, k4) = k_fchdir k3 dirfd
                            in ((bsderr, savedir, child),
                                schdirparent_finish k4 bsderr savedir have_olddir savedir dirfd))))))"

definition restoredir :: "kstate \<Rightarrow> int \<Rightarrow> int \<times> kstate" where
  "restoredir k savedir =
     (if savedir \<noteq> -1
      then (let (cherr, k1) = k_fchdir k savedir;
                (clerr, k2) = k_close k1 savedir
            in (if cherr \<noteq> 0 then cherr else clerr, k2))
      else (-1, k))"

definition RESTOREDIR :: "kstate \<Rightarrow> int \<Rightarrow> kstate" where
  "RESTOREDIR k savedir = (if savedir \<noteq> -1 then snd (restoredir k savedir) else k)"

definition sopen :: "kstate \<Rightarrow> int \<Rightarrow> path \<Rightarrow> oflags \<Rightarrow> mode_t \<Rightarrow> int \<times> kstate" where
  "sopen k fdvol p flags0 mode =
     (let flags = (if flags0 AND O_CREAT \<noteq> 0 then flags0 OR O_EXCL else flags0);
          ((err, savedir, child), k1) = schdirparent k fdvol (Some p) True True
      in if err \<noteq> 0 then (-1, RESTOREDIR k1 savedir)
         else
          (let (candfd, k2) = k_open k1 child flags mode
           in (candfd, RESTOREDIR k2 savedir)))"

definition schdir :: "kstate \<Rightarrow> int \<Rightarrow> path \<Rightarrow> bool \<Rightarrow> (int \<times> int) \<times> kstate" where
  "schdir k fdvol p have_savedir =
     (if length p \<ge> PATH_MAX \<or> length p + 2 \<ge> PATH_MAX then ((-1, -1), k)
      else (let ((err, savedir, _), k1) = schdirparent k fdvol (Some (p @ ''/.'')) have_savedir False
            in ((err, savedir), k1)))"

definition smkdir :: "kstate \<Rightarrow> int \<Rightarrow> path \<Rightarrow> mode_t \<Rightarrow> int \<times> kstate" where
  "smkdir k fdvol p mode =
     (let ((err, savedir, child), k1) = schdirparent k fdvol (Some p) True True
      in if err \<noteq> 0 then (-1, RESTOREDIR k1 savedir)
         else (let (bsderr, k2) = k_mkdir k1 child mode in (bsderr, RESTOREDIR k2 savedir)))"

definition srmdir :: "kstate \<Rightarrow> int \<Rightarrow> path \<Rightarrow> int \<times> kstate" where
  "srmdir k fdvol p =
     (let ((err, savedir, child), k1) = schdirparent k fdvol (Some p) True True
      in if err \<noteq> 0 then (-1, RESTOREDIR k1 savedir)
         else (let (bsderr, k2) = k_rmdir k1 child in (bsderr, RESTOREDIR k2 savedir)))"

definition sunlink :: "kstate \<Rightarrow> int \<Rightarrow> path \<Rightarrow> int \<times> kstate" where
  "sunlink k fdvol p =
     (let ((err, savedir, child), k1) = schdirparent k fdvol (Some p) True True
      in if err \<noteq> 0 then (-1, RESTOREDIR k1 savedir)
         else (let (bsderr, k2) = k_unlink k1 child in (bsderr, RESTOREDIR k2 savedir)))"

definition srename :: "kstate \<Rightarrow> int \<Rightarrow> path \<Rightarrow> path \<Rightarrow> int \<times> kstate" where
  "srename k fdvol oldpath newpath =
     (if length (basename newpath) \<ge> PATH_MAX then (-1, k)
      else
       (let newname = basename newpath;
            ((err, savedir, oldname), k1) = schdirparent k fdvol (Some oldpath) True True
        in if err \<noteq> 0 then (-1, RESTOREDIR k1 savedir)
           else (let (bsderr, k2) = k_rename k1 oldname newname
                 in (bsderr, RESTOREDIR k2 savedir))))"

subsection \<open>sdeepunlink\<close>

text \<open>
  The traversal is libc's \<^verbatim>\<open>fts\<close>. Its result is a parameter: \<open>None\<close> when
  \<^verbatim>\<open>fts_open\<close> fails, otherwise the entries \<^verbatim>\<open>fts_read\<close> returns in order, each with
  the directory \<^verbatim>\<open>fts_read\<close> has changed into when it returns the entry, and the value
  of \<open>errno\<close> that the last \<^verbatim>\<open>fts_read\<close> leaves. \<^verbatim>\<open>fts_close\<close> goes back to the
  directory of the start.
\<close>

datatype fts_info =
    FTS_D | FTS_DC | FTS_DOT | FTS_DNR | FTS_ERR | FTS_NS
  | FTS_SL | FTS_SLNONE | FTS_DEFAULT | FTS_F | FTS_NSOK | FTS_DP | FTS_unknown

record FTSENT =
  fts_info :: fts_info
  fts_accpath :: path
  fts_errno :: int
  fts_curdir :: path

definition fts_chdir :: "kstate \<Rightarrow> path \<Rightarrow> kstate" where
  "fts_chdir k d =
     (case lookup k d of
        None \<Rightarrow> k
      | Some n \<Rightarrow> if is_dir n then k\<lparr>cwd := d, cwd_dev := st_dev n\<rparr> else k)"

definition sdeepunlink_entry :: "kstate \<Rightarrow> int \<Rightarrow> FTSENT \<Rightarrow> int \<times> kstate" where
  "sdeepunlink_entry k fdvol fent =
     (case fts_info fent of
        FTS_DC \<Rightarrow> (0, k)
      | FTS_D \<Rightarrow> (0, k)
      | FTS_DOT \<Rightarrow> (0, k)
      | FTS_DNR \<Rightarrow> (fts_errno fent, k)
      | FTS_ERR \<Rightarrow> (fts_errno fent, k)
      | FTS_NS \<Rightarrow> (fts_errno fent, k)
      | FTS_DP \<Rightarrow> srmdir k fdvol (fts_accpath fent)
      | _ \<Rightarrow> sunlink k fdvol (fts_accpath fent))"

fun sdeepunlink_loop :: "kstate \<Rightarrow> int \<Rightarrow> int \<Rightarrow> FTSENT list \<Rightarrow> int \<times> kstate" where
  "sdeepunlink_loop k fdvol rval [] = (rval, k)"
| "sdeepunlink_loop k fdvol rval (fent # fents) =
     (let (r, k1) = sdeepunlink_entry (fts_chdir k (fts_curdir fent)) fdvol fent
      in sdeepunlink_loop k1 fdvol (rval OR r) fents)"

definition sdeepunlink ::
  "(FTSENT list \<times> int) option \<Rightarrow> kstate \<Rightarrow> int \<Rightarrow> path \<Rightarrow> int \<times> kstate" where
  "sdeepunlink fts k fdvol p =
     (case fts of
        None \<Rightarrow> (ELAST + 1, k)
      | Some (fents, end_errno) \<Rightarrow>
         (let (rval, k1) = sdeepunlink_loop k fdvol 0 fents;
              k2 = k1\<lparr>errno := end_errno\<rparr>;
              rval' = (if rval = 0 then errno k2 else rval)
          in (rval', k2\<lparr>cwd := cwd k, cwd_dev := cwd_dev k\<rparr>)))"

subsection \<open>sdeepmkdir\<close>

text \<open>
  The recursion on \<^verbatim>\<open>dirname(path)\<close> has no bound in the source: the first argument
  bounds its depth, and \<open>None\<close> is a recursion that has not returned within it.
  The test of the existing object is the source's \<^verbatim>\<open>sb.st_mode & S_IFDIR == 0\<close>, in
  which \<^verbatim>\<open>==\<close> binds tighter than \<^verbatim>\<open>&\<close>.
\<close>

fun sdeepmkdir :: "nat \<Rightarrow> kstate \<Rightarrow> int \<Rightarrow> path \<Rightarrow> mode_t \<Rightarrow> (int \<times> kstate) option" where
  "sdeepmkdir 0 k fdvol p mode = None"
| "sdeepmkdir (Suc n) k fdvol p mode =
     (if length p = 0 then Some (-1, k)
      else case k_stat k p of
        (Some sb, k1) \<Rightarrow>
          if st_mode sb AND (if S_IFDIR = 0 then 1 else 0) \<noteq> 0 then Some (ENOTDIR, k1)
          else Some (0, k1)
      | (None, k1) \<Rightarrow>
          if errno k1 \<noteq> ENOENT then Some (-1, k1)
          else if length (dirname p) \<ge> PATH_MAX then Some (-1, k1)
          else (case sdeepmkdir n k1 fdvol (dirname p) mode of
                  None \<Rightarrow> None
                | Some (bsderr, k2) \<Rightarrow>
                    if bsderr \<noteq> 0 then Some (bsderr, k2)
                    else Some (smkdir k2 fdvol p mode)))"

subsection \<open>scopyfile\<close>

function copy_loop :: "kstate \<Rightarrow> int \<Rightarrow> int \<Rightarrow> nat \<Rightarrow> bool \<times> kstate" where
  "copy_loop k srcfd dstfd bytesLeft =
     (if bytesLeft > 0 then
        (let thisTime = min bytesLeft MAXBSIZE;
             ((nr, buf), k1) = k_read k srcfd thisTime
         in if nr \<noteq> int thisTime then (False, k1)
            else (let (nw, k2) = k_write k1 dstfd buf
                  in if nw \<noteq> int thisTime then (False, k2)
                     else copy_loop k2 srcfd dstfd (bytesLeft - thisTime)))
      else (True, k))"
  by pat_completeness auto
termination
  by (relation "measure (\<lambda>(k, s, d, n). n)") (auto simp: MAXBSIZE_def)

definition scopyfile_finish :: "kstate \<Rightarrow> int \<Rightarrow> int \<Rightarrow> kstate" where
  "scopyfile_finish k srcfd dstfd =
     (let k1 = (if srcfd \<noteq> -1 then snd (k_close k srcfd) else k)
      in if dstfd \<noteq> -1 then snd (k_close k1 dstfd) else k1)"

definition dirmode_of :: "mode_t \<Rightarrow> mode_t" where
  "dirmode_of m =
     (let d0 = (m AND NOT S_IFMT) OR S_IWUSR OR S_IXUSR;
          d1 = (if d0 AND S_IRGRP \<noteq> 0 then d0 OR S_IXGRP else d0)
      in if d1 AND S_IROTH \<noteq> 0 then d1 OR S_IXOTH else d1)"

definition scopyfile ::
  "nat \<Rightarrow> kstate \<Rightarrow> int \<Rightarrow> path \<Rightarrow> int \<Rightarrow> path \<Rightarrow> (int \<times> kstate) option" where
  "scopyfile fuel k srcfdvol srcpath dstfdvol dstpath =
     (let (srcfd, k1) = sopen k srcfdvol srcpath O_RDONLY 0
      in if srcfd = -1 then Some (-1, scopyfile_finish k1 srcfd (-1))
         else case k_fstat k1 srcfd of
           (None, k2) \<Rightarrow> Some (-1, scopyfile_finish k2 srcfd (-1))
         | (Some srcsb, k2) \<Rightarrow>
            (let dirmode = dirmode_of (st_mode srcsb)
             in if length (dirname dstpath) \<ge> PATH_MAX
                then Some (-1, scopyfile_finish k2 srcfd (-1))
                else case sdeepmkdir fuel k2 dstfdvol (dirname dstpath) dirmode of
                  None \<Rightarrow> None
                | Some (mkerr, k3) \<Rightarrow>
                    if mkerr \<noteq> 0 then Some (-1, scopyfile_finish k3 srcfd (-1))
                    else
                     (let (_, k4) = sunlink k3 dstfdvol dstpath;
                          (dstfd, k5) = sopen k4 dstfdvol dstpath (O_CREAT OR O_WRONLY)
                                          (st_mode srcsb OR S_IWUSR)
                      in if dstfd = -1 then Some (-1, scopyfile_finish k5 srcfd dstfd)
                         else
                          (let (copied, k6) = copy_loop k5 srcfd dstfd (st_size srcsb)
                           in if \<not> copied then Some (-1, scopyfile_finish k6 srcfd dstfd)
                              else (let (bsderr, k7) = k_fchmod k6 dstfd (st_mode srcsb)
                                    in Some (bsderr, scopyfile_finish k7 srcfd dstfd))))))"

section \<open>update\_boot.c: the state of one helper update\<close>

record timeval =
  tv_sec' :: int
  tv_usec :: int

record cachedPath =
  rpath :: path
  tspath :: path
  tstamps :: "timeval \<times> timeval"

datatype plist =
    PString string
  | PArray "plist list"
  | PDict "(string \<times> plist) list"
  | POther

record bootCaches =
  cachefd :: int
  volUUIDStr :: string
  volname :: string
  root :: path
  cacheinfo :: "plist option"
  exts :: path
  nrps :: int
  rpspaths :: "cachedPath list"
  nmisc :: int
  miscpaths :: "cachedPath list"
  efibooter :: cachedPath
  ofbooter :: cachedPath
  mkext :: "nat option"
  bootconfig :: "nat option"
  label :: "nat option"

datatype bootReversions =
    nothingSerious
  | nukedLabels
  | copyingOFBooter
  | copyingEFIBooter
  | copiedBooters
  | activatingOFBooter
  | activatingEFIBooter
  | activatedBooters

record updatingVol =
  curbootfd :: int
  curMount :: path
  curBoot :: bool
  curRPS :: path
  efidst :: path
  ofdst :: path
  changestate :: bootReversions
  doRPS :: bool
  doMisc :: bool
  doBooters :: bool
  caches :: bootCaches

definition kBootDirR :: path where "kBootDirR = ''com.apple.boot.R''"
definition kBootDirP :: path where "kBootDirP = ''com.apple.boot.P''"
definition kBootDirS :: path where "kBootDirS = ''com.apple.boot.S''"

subsection \<open>FindRPSDir\<close>

text \<open>
  The three candidate paths are built with the bounded macros, each is probed with
  \<^verbatim>\<open>stat\<close>, and the eight combinations are decided in the order of the source.
  The result is \<open>Inl (ELAST + 1)\<close>, or \<open>Inr (prev, current, next)\<close>: the three output
  buffers are only written by the three final \<^verbatim>\<open>strlcpy\<close> calls.
\<close>

definition rps_paths :: "path \<Rightarrow> (path \<times> path \<times> path) option" where
  "rps_paths mnt =
     (case pathcpy mnt of None \<Rightarrow> None | Some rpath0 \<Rightarrow>
      case pathcat rpath0 ''/'' of None \<Rightarrow> None | Some rpath1 \<Rightarrow>
      case pathcpy rpath1 of None \<Rightarrow> None | Some ppath0 \<Rightarrow>
      case pathcpy rpath1 of None \<Rightarrow> None | Some spath0 \<Rightarrow>
      case pathcat rpath1 kBootDirR of None \<Rightarrow> None | Some rpath2 \<Rightarrow>
      case pathcat ppath0 kBootDirP of None \<Rightarrow> None | Some ppath \<Rightarrow>
      case pathcat spath0 kBootDirS of None \<Rightarrow> None | Some spath \<Rightarrow>
        Some (rpath2, ppath, spath))"

definition rps_select :: "bool \<Rightarrow> bool \<Rightarrow> bool \<Rightarrow> 'a \<Rightarrow> 'a \<Rightarrow> 'a \<Rightarrow> 'a \<times> 'a \<times> 'a" where
  "rps_select haveR haveP haveS r p s =
     (if haveR \<and> haveP \<and> haveS then (s, r, p)
      else if haveR \<and> haveP then (r, p, s)
      else if haveR \<and> haveS then (s, r, p)
      else if haveP \<and> haveS then (p, s, r)
      else if haveR then (s, r, p)
      else if haveP then (r, p, s)
      else if haveS then (p, s, r)
      else (s, r, p))"

definition FindRPSDir ::
  "kstate \<Rightarrow> updatingVol \<Rightarrow> (int + path \<times> path \<times> path) \<times> kstate" where
  "FindRPSDir k up =
     (case rps_paths (curMount up) of
        None \<Rightarrow> (Inl (ELAST + 1), k)
      | Some (rpath2, ppath, spath) \<Rightarrow>
         (let (r, k1) = k_stat k rpath2;
              haveR = (r \<noteq> None);
              (p, k2) = k_stat k1 ppath;
              haveP = (p \<noteq> None);
              (s, k3) = k_stat k2 spath;
              haveS = (s \<noteq> None);
              (prevp, curp, nextp) = rps_select haveR haveP haveS rpath2 ppath spath
          in case pathcpy prevp of None \<Rightarrow> (Inl (ELAST + 1), k3) | Some prev \<Rightarrow>
             case pathcpy curp of None \<Rightarrow> (Inl (ELAST + 1), k3) | Some current \<Rightarrow>
             case pathcpy nextp of None \<Rightarrow> (Inl (ELAST + 1), k3) | Some next \<Rightarrow>
               (Inr (prev, current, next), k3)))"

text \<open>The rotation of the three names, and which of them a helper holds.\<close>

datatype rps = R | P | S

fun rps_succ :: "rps \<Rightarrow> rps" where
  "rps_succ R = P"
| "rps_succ P = S"
| "rps_succ S = R"

fun rps_name :: "rps \<Rightarrow> path" where
  "rps_name R = kBootDirR"
| "rps_name P = kBootDirP"
| "rps_name S = kBootDirS"

definition rps_path :: "updatingVol \<Rightarrow> rps \<Rightarrow> path" where
  "rps_path up d = curMount up @ ''/'' @ rps_name d"

definition rps_present :: "kstate \<Rightarrow> updatingVol \<Rightarrow> rps \<Rightarrow> bool" where
  "rps_present k up d \<longleftrightarrow>
     faults k (resolve k (rps_path up d)) = None \<and> lookup k (resolve k (rps_path up d)) \<noteq> None"

text \<open>
  The selection as the specification words it: with all three or none present the
  current directory is R; with two present it is the later of the two in the rotation,
  that is the present one whose successor is missing; with one present it is that one.
\<close>

definition rps_current_spec :: "(rps \<Rightarrow> bool) \<Rightarrow> rps" where
  "rps_current_spec have =
     (if have R \<and> have P \<and> have S then R
      else if \<not> have R \<and> \<not> have P \<and> \<not> have S then R
      else if have R \<and> \<not> have P \<and> \<not> have S then R
      else if have P \<and> \<not> have R \<and> \<not> have S then P
      else if have S \<and> \<not> have R \<and> \<not> have P then S
      else if have R \<and> \<not> have (rps_succ R) then R
      else if have P \<and> \<not> have (rps_succ P) then P
      else S)"

subsection \<open>ucopyBooters\<close>

definition OLDEXT :: string where "OLDEXT = ''.old''"

text \<open>
  \<open>up_pathcpy\<close> and \<open>up_pathcat\<close> are the two macros on a buffer that lives in the
  \<^verbatim>\<open>updatingVol\<close>: the buffer keeps what \<^verbatim>\<open>strlcpy\<close>/\<^verbatim>\<open>strlcat\<close> wrote, also
  when the macro jumps to \<^verbatim>\<open>finish\<close> (\<open>False\<close>).
\<close>

definition up_pathcpy :: "path \<Rightarrow> bool \<times> path" where
  "up_pathcpy src = (let (n, b) = strlcpy src PATH_MAX in (n < PATH_MAX, b))"

definition up_pathcat :: "path \<Rightarrow> path \<Rightarrow> bool \<times> path" where
  "up_pathcat dst src = (let (n, b) = strlcat dst src PATH_MAX in (n < PATH_MAX, b))"

text \<open>
  The block for the Open Firmware booter: any failure of \<^verbatim>\<open>srename\<close> leaves through
  \<^verbatim>\<open>finish\<close>. The result is \<open>(ok, up, k)\<close>, \<open>None\<close> when the copy does not return.
\<close>

definition ucopyBooters_of ::
  "nat \<Rightarrow> kstate \<Rightarrow> updatingVol \<Rightarrow> (bool \<times> updatingVol \<times> kstate) option" where
  "ucopyBooters_of fuel k up =
     (case pathcpy (root (caches up)) of None \<Rightarrow> Some (False, up, k) | Some src0 \<Rightarrow>
      case pathcat src0 (rpath (ofbooter (caches up))) of None \<Rightarrow> Some (False, up, k) | Some srcpath \<Rightarrow>
      (let (ok1, d1) = up_pathcpy (curMount up); up1 = up\<lparr>ofdst := d1\<rparr>
       in if \<not> ok1 then Some (False, up1, k)
          else
           (let (ok2, d2) = up_pathcat d1 (rpath (ofbooter (caches up))); up2 = up1\<lparr>ofdst := d2\<rparr>
            in if \<not> ok2 then Some (False, up2, k)
               else case pathcpy d2 of None \<Rightarrow> Some (False, up2, k) | Some old0 \<Rightarrow>
                    case pathcat old0 OLDEXT of None \<Rightarrow> Some (False, up2, k) | Some oldpath \<Rightarrow>
                     (let (_, k1) = sunlink k (curbootfd up2) oldpath;
                          (rn, k2) = srename k1 (curbootfd up2) (ofdst up2) oldpath
                      in if rn \<noteq> 0 then Some (False, up2, k2)
                         else case scopyfile fuel k2 (cachefd (caches up2)) srcpath
                                     (curbootfd up2) (ofdst up2) of
                                None \<Rightarrow> None
                              | Some (cp, k3) \<Rightarrow> Some (cp = 0, up2, k3)))))"

text \<open>
  The block for the EFI booter: a failing \<^verbatim>\<open>srename\<close> leaves through \<^verbatim>\<open>finish\<close>
  only when \<open>errno\<close> is not \<open>ENOENT\<close>.
\<close>

definition ucopyBooters_efi ::
  "nat \<Rightarrow> kstate \<Rightarrow> updatingVol \<Rightarrow> (bool \<times> updatingVol \<times> kstate) option" where
  "ucopyBooters_efi fuel k up =
     (case pathcpy (root (caches up)) of None \<Rightarrow> Some (False, up, k) | Some src0 \<Rightarrow>
      case pathcat src0 (rpath (efibooter (caches up))) of None \<Rightarrow> Some (False, up, k) | Some srcpath \<Rightarrow>
      (let (ok1, d1) = up_pathcpy (curMount up); up1 = up\<lparr>efidst := d1\<rparr>
       in if \<not> ok1 then Some (False, up1, k)
          else
           (let (ok2, d2) = up_pathcat d1 (rpath (efibooter (caches up))); up2 = up1\<lparr>efidst := d2\<rparr>
            in if \<not> ok2 then Some (False, up2, k)
               else case pathcpy d2 of None \<Rightarrow> Some (False, up2, k) | Some old0 \<Rightarrow>
                    case pathcat old0 OLDEXT of None \<Rightarrow> Some (False, up2, k) | Some oldpath \<Rightarrow>
                     (let (_, k1) = sunlink k (curbootfd up2) oldpath;
                          (rn, k2) = srename k1 (curbootfd up2) (efidst up2) oldpath
                      in if rn \<noteq> 0 \<and> errno k2 \<noteq> ENOENT then Some (False, up2, k2)
                         else case scopyfile fuel k2 (cachefd (caches up2)) srcpath
                                     (curbootfd up2) (efidst up2) of
                                None \<Rightarrow> None
                              | Some (cp, k3) \<Rightarrow> Some (cp = 0, up2, k3)))))"

text \<open>
  ucopyBooters from \<^verbatim>\<open>up->changestate = copyingEFIBooter\<close> to its end.
\<close>

definition ucopyBooters_tail ::
  "nat \<Rightarrow> kstate \<Rightarrow> updatingVol \<Rightarrow> (int \<times> updatingVol \<times> kstate) option" where
  "ucopyBooters_tail fuel k up =
     (let up3 = up\<lparr>changestate := copyingEFIBooter\<rparr>
      in if rpath (efibooter (caches up3)) \<noteq> [] then
           (case ucopyBooters_efi fuel k up3 of
              None \<Rightarrow> None
            | Some (ok_efi, up4, k4) \<Rightarrow>
                if \<not> ok_efi then Some (ELAST + 1, up4, k4)
                else Some (0, up4\<lparr>changestate := copiedBooters\<rparr>, k4))
         else Some (0, up3\<lparr>changestate := copiedBooters\<rparr>, k))"

definition ucopyBooters ::
  "nat \<Rightarrow> kstate \<Rightarrow> updatingVol \<Rightarrow> (int \<times> updatingVol \<times> kstate) option" where
  "ucopyBooters fuel k up =
     (let up1 = up\<lparr>changestate := copyingOFBooter\<rparr>
      in if rpath (ofbooter (caches up1)) \<noteq> [] then
           (case ucopyBooters_of fuel k up1 of
              None \<Rightarrow> None
            | Some (ok_of, up2, k2) \<Rightarrow>
                if \<not> ok_of then Some (ELAST + 1, up2, k2)
                else ucopyBooters_tail fuel k2 up2)
         else ucopyBooters_tail fuel k up1)"




subsection \<open>activateBooters\<close>

definition tbxichrp :: string where "tbxichrp = ''tbxichrp''"

text \<open>The \<^verbatim>\<open>finish\<close> block: the descriptor still held is closed.\<close>

definition activate_finish :: "int \<Rightarrow> int \<Rightarrow> updatingVol \<Rightarrow> kstate \<Rightarrow> int \<times> updatingVol \<times> kstate" where
  "activate_finish rval fd up k = (rval, up, if fd \<noteq> -1 then snd (k_close k fd) else k)"

text \<open>
  The block for the Open Firmware booter returns \<open>Inl\<close> when it has jumped to
  \<^verbatim>\<open>finish\<close> with the descriptor it holds, and \<open>Inr\<close> with \<^verbatim>\<open>vinfo[kSystemFolderIdx]\<close>
  when control falls out of the block. After the type/creator has been set the source reads
  \<^verbatim>\<open>pathcpy(parent, dirname(up->ofdst)); goto finish;\<close>: the jump is taken whether
  the copy fits or not, and the three statements after it, which would open the parent and
  store its inode number, are never reached.
\<close>

definition activateBooters_of :: "kstate \<Rightarrow> updatingVol \<Rightarrow> (int + 32 word) \<times> kstate" where
  "activateBooters_of k up =
     (let (fd, k1) = sopen k (curbootfd up) (ofdst up) O_RDWR 0
      in if fd = -1 then (Inl fd, k1)
         else
          (let (fs, k2) = k_fullfsync k1 fd
           in if fs \<noteq> 0 then (Inl fd, k2)
              else
               (let (xa, k3) = k_fsetxattr k2 fd tbxichrp
                in if xa \<noteq> 0 then (Inl fd, k3)
                   else
                    (let (_, k4) = k_close k3 fd
                     in case pathcpy (dirname (ofdst up)) of
                          None \<Rightarrow> (Inl (-1), k4)
                        | Some parent \<Rightarrow> (Inl (-1), k4)))))"

text \<open>
  The block for the EFI booter, given \<^verbatim>\<open>vinfo[0]\<close>: \<open>Inl\<close> is the jump to
  \<^verbatim>\<open>finish\<close>, \<open>Inr\<close> the two entries of \<^verbatim>\<open>vinfo\<close>.
\<close>

definition activateBooters_efi ::
  "kstate \<Rightarrow> updatingVol \<Rightarrow> 32 word \<Rightarrow> (int + 32 word \<times> 32 word) \<times> kstate" where
  "activateBooters_efi k up v0 =
     (let (fd, k1) = sopen k (curbootfd up) (efidst up) O_RDONLY 0
      in if fd = -1 then (Inl fd, k1)
         else
          (let (fs, k2) = k_fullfsync k1 fd
           in if fs \<noteq> 0 then (Inl fd, k2)
              else case k_fstat k2 fd of
                (None, k3) \<Rightarrow> (Inl fd, k3)
              | (Some sb, k3) \<Rightarrow>
                 (let (_, k4) = k_close k3 fd;
                      v1 = of_nat (st_ino sb)
                  in if v0 = 0 then
                       (case pathcpy (dirname (efidst up)) of
                          None \<Rightarrow> (Inl (-1), k4)
                        | Some parent \<Rightarrow>
                           (let (pfd, k5) = sopen k4 (curbootfd up) parent O_RDONLY 0
                            in if pfd = -1 then (Inl pfd, k5)
                               else case k_fstat k5 pfd of
                                 (None, k6) \<Rightarrow> (Inl pfd, k6)
                               | (Some psb, k6) \<Rightarrow>
                                  (let (_, k7) = k_close k6 pfd
                                   in (Inr (of_nat (st_ino psb), v1), k7))))
                     else (Inr (v0, v1), k4))))"

text \<open>
  activateBooters from \<^verbatim>\<open>up->changestate = activatingEFIBooter\<close> to its end, given
  \<^verbatim>\<open>vinfo[0]\<close>.
\<close>

definition activateBooters_tail ::
  "kstate \<Rightarrow> updatingVol \<Rightarrow> 32 word \<Rightarrow> int \<times> updatingVol \<times> kstate" where
  "activateBooters_tail k up v0 =
     (let up2 = up\<lparr>changestate := activatingEFIBooter\<rparr>;
          (r_efi, k2) = (if rpath (efibooter (caches up2)) \<noteq> []
                         then activateBooters_efi k up2 v0
                         else (Inr (v0, 0), k))
      in case r_efi of
           Inl fd \<Rightarrow> activate_finish (ELAST + 1) fd up2 k2
         | Inr (w0, w1) \<Rightarrow>
            (let ((err, fd), k3) = schdir k2 (curbootfd up2) (curMount up2) True
             in if err \<noteq> 0 then activate_finish (ELAST + 1) fd up2 k3
                else
                 (let (rval, k4) = BLSetVolumeFinderInfo k3 (unat w0) (unat w1)
                  in if rval \<noteq> 0 then activate_finish rval fd up2 k4
                     else
                      (let (_, k5) = restoredir k4 fd
                       in activate_finish rval (-1)
                            (up2\<lparr>changestate := activatedBooters\<rparr>) k5))))"

definition activateBooters :: "kstate \<Rightarrow> updatingVol \<Rightarrow> int \<times> updatingVol \<times> kstate" where
  "activateBooters k up =
     (let up1 = up\<lparr>changestate := activatingOFBooter\<rparr>
      in if rpath (ofbooter (caches up1)) \<noteq> [] then
           (case activateBooters_of k up1 of
              (Inl fd, k1) \<Rightarrow> activate_finish (ELAST + 1) fd up1 k1
            | (Inr v0, k1) \<Rightarrow> activateBooters_tail k1 up1 v0)
         else activateBooters_tail k up1 0)"

subsection \<open>revertState\<close>

text \<open>
  The block that puts one booter back: \<open>Inl\<close> is a \<^verbatim>\<open>goto finish\<close> out of one of
  the path macros, \<open>Inr\<close> the accumulated \<^verbatim>\<open>rval\<close> when control leaves the block.
\<close>

definition revert_booter ::
  "kstate \<Rightarrow> updatingVol \<Rightarrow> cachedPath \<Rightarrow> int \<Rightarrow> (int + int) \<times> kstate" where
  "revert_booter k up cp rval =
     (case pathcpy (curMount up) of None \<Rightarrow> (Inl rval, k) | Some p0 \<Rightarrow>
      case pathcat p0 (rpath cp) of None \<Rightarrow> (Inl rval, k) | Some bpath \<Rightarrow>
      case pathcpy bpath of None \<Rightarrow> (Inl rval, k) | Some old0 \<Rightarrow>
      case pathcat old0 OLDEXT of None \<Rightarrow> (Inl rval, k) | Some oldpath \<Rightarrow>
        (let (_, k1) = sunlink k (curbootfd up) bpath;
             (rn, k2) = srename k1 (curbootfd up) oldpath bpath
         in (Inr (rval OR rn), k2)))"

text \<open>
  \<^verbatim>\<open>activateMisc\<close> writes the labels through the bless library; it is a parameter of
  the model. The cases of the \<^verbatim>\<open>switch\<close> fall through, so the function is the chain
  of its entry points: \<open>revert_labels\<close> is \<^verbatim>\<open>case nukedLabels\<close>, \<open>revert_from_of\<close>
  is \<^verbatim>\<open>case copyingOFBooter\<close>, \<open>revert_from_efi\<close> the four cases above it.
\<close>

type_synonym activateMisc_fn = "kstate \<Rightarrow> updatingVol \<Rightarrow> nat \<Rightarrow> int \<times> kstate"

definition revert_labels ::
  "activateMisc_fn \<Rightarrow> kstate \<Rightarrow> updatingVol \<Rightarrow> int \<Rightarrow> int \<times> updatingVol \<times> kstate" where
  "revert_labels activateMisc k up rval =
     (let saved = doMisc up;
          (r, k1) = activateMisc k (up\<lparr>doMisc := False\<rparr>) 0
      in (rval OR r, up\<lparr>doMisc := saved\<rparr>, k1))"

definition revert_from_of ::
  "activateMisc_fn \<Rightarrow> kstate \<Rightarrow> updatingVol \<Rightarrow> int \<Rightarrow> int \<times> updatingVol \<times> kstate" where
  "revert_from_of activateMisc k up rval =
     (if rpath (ofbooter (caches up)) \<noteq> [] then
        (case revert_booter k up (ofbooter (caches up)) rval of
           (Inl r, k1) \<Rightarrow> (r, up, k1)
         | (Inr r, k1) \<Rightarrow> revert_labels activateMisc k1 up r)
      else revert_labels activateMisc k up rval)"

definition revert_from_efi ::
  "activateMisc_fn \<Rightarrow> kstate \<Rightarrow> updatingVol \<Rightarrow> int \<Rightarrow> int \<times> updatingVol \<times> kstate" where
  "revert_from_efi activateMisc k up rval =
     (if rpath (efibooter (caches up)) \<noteq> [] then
        (case revert_booter k up (efibooter (caches up)) rval of
           (Inl r, k1) \<Rightarrow> (r, up, k1)
         | (Inr r, k1) \<Rightarrow> revert_from_of activateMisc k1 up r)
      else revert_from_of activateMisc k up rval)"

definition revertState ::
  "activateMisc_fn \<Rightarrow> kstate \<Rightarrow> updatingVol \<Rightarrow> int \<times> updatingVol \<times> kstate" where
  "revertState activateMisc k up =
     (case changestate up of
        activatedBooters \<Rightarrow>
          (let (ok1, d1) = up_pathcat (ofdst up) OLDEXT; up1 = up\<lparr>ofdst := d1\<rparr>
           in if \<not> ok1 then (0, up1, k)
              else
               (let (ok2, d2) = up_pathcat (efidst up1) OLDEXT; up2 = up1\<lparr>efidst := d2\<rparr>
                in if \<not> ok2 then (0, up2, k)
                   else (case activateBooters k up2 of
                           (r, up3, k1) \<Rightarrow> revert_from_efi activateMisc k1 up3 (0 OR r))))
      | activatingEFIBooter \<Rightarrow> revert_from_efi activateMisc k up 0
      | activatingOFBooter \<Rightarrow> revert_from_efi activateMisc k up 0
      | copiedBooters \<Rightarrow> revert_from_efi activateMisc k up 0
      | copyingEFIBooter \<Rightarrow> revert_from_efi activateMisc k up 0
      | copyingOFBooter \<Rightarrow> revert_from_of activateMisc k up 0
      | nukedLabels \<Rightarrow> revert_labels activateMisc k up 0
      | nothingSerious \<Rightarrow> (0, up, k))"

subsection \<open>nukeFallbacks\<close>

text \<open>
  The block that unlinks one booter's \<^verbatim>\<open>.old\<close> copy: \<open>Inl\<close> is a
  \<^verbatim>\<open>goto finish\<close>, \<open>Inr\<close> the accumulated \<^verbatim>\<open>rval\<close>.
\<close>

definition nuke_old_booter ::
  "kstate \<Rightarrow> updatingVol \<Rightarrow> cachedPath \<Rightarrow> int \<Rightarrow> (int + int) \<times> kstate" where
  "nuke_old_booter k up cp rval =
     (case pathcpy (curMount up) of None \<Rightarrow> (Inl rval, k) | Some p0 \<Rightarrow>
      case pathcat p0 (rpath cp) of None \<Rightarrow> (Inl rval, k) | Some p1 \<Rightarrow>
      case pathcat p1 OLDEXT of None \<Rightarrow> (Inl rval, k) | Some delpath \<Rightarrow>
        (let (bsderr, k1) = sunlink k (curbootfd up) delpath
         in if bsderr \<noteq> 0 \<and> errno k1 \<noteq> ENOENT then (Inr (rval OR bsderr), k1)
            else (Inr rval, k1)))"

text \<open>
  The end of nukeFallbacks: the previous RPS directory is removed. The traversal of
  \<^verbatim>\<open>sdeepunlink\<close> is the parameter \<open>fts\<close>.
\<close>

definition nukeFallbacks_rps ::
  "(FTSENT list \<times> int) option \<Rightarrow> kstate \<Rightarrow> updatingVol \<Rightarrow> int \<Rightarrow> int \<times> kstate" where
  "nukeFallbacks_rps fts k up rval =
     (if doRPS up then
        (case FindRPSDir k up of
           (Inr (delpath, _, _), k1) \<Rightarrow>
             (let (bsderr, k2) = sdeepunlink fts k1 (curbootfd up) delpath
              in if bsderr \<noteq> 0 \<and> bsderr \<noteq> ENOENT then (rval OR bsderr, k2) else (rval, k2))
         | (Inl _, k1) \<Rightarrow> (rval, k1))
      else (rval, k))"

text \<open>nukeFallbacks from the test of \<^verbatim>\<open>caches->efibooter.rpath[0]\<close> on.\<close>

definition nukeFallbacks_from_efi ::
  "(FTSENT list \<times> int) option \<Rightarrow> kstate \<Rightarrow> updatingVol \<Rightarrow> int \<Rightarrow> int \<times> kstate" where
  "nukeFallbacks_from_efi fts k up rval =
     (if rpath (efibooter (caches up)) \<noteq> [] then
        (case nuke_old_booter k up (efibooter (caches up)) rval of
           (Inl r, k1) \<Rightarrow> (r, k1)
         | (Inr r, k1) \<Rightarrow> nukeFallbacks_rps fts k1 up r)
      else nukeFallbacks_rps fts k up rval)"

definition nukeFallbacks ::
  "(FTSENT list \<times> int) option \<Rightarrow> kstate \<Rightarrow> updatingVol \<Rightarrow> int \<times> kstate" where
  "nukeFallbacks fts k up =
     (if \<not> curBoot up then (0, k)
      else if doBooters up then
        (if rpath (ofbooter (caches up)) \<noteq> [] then
           (case nuke_old_booter k up (ofbooter (caches up)) 0 of
              (Inl r, k1) \<Rightarrow> (r, k1)
            | (Inr r, k1) \<Rightarrow> nukeFallbacks_from_efi fts k1 up r)
         else nukeFallbacks_from_efi fts k up 0)
      else nukeFallbacks_rps fts k up 0)"

subsection \<open>updateBoots\<close>

text \<open>
  The volume lock, Disk Arbitration, the bless library and the stages of one helper meet
  in updateBoots only through what they return. The model takes these results as its
  input: \<open>helper_run\<close> holds what the stages return for one helper partition, and
  \<open>update_env\<close> what the calls before and after the loop return. A stage that the source
  does not reach is not called, and its entry is not read.
\<close>

record helper_run =
  r_mountBoot :: int
  r_ucopyRPS :: int
  r_nukeLabels :: int
  r_ucopyBooters :: int
  r_activateBooters :: int
  r_activateRPS :: int
  r_activateMisc :: int

record update_env =
  e_takeVolume :: int
  e_readCaches :: bool
  e_check_mkext :: bool
  e_rebuild_mkext :: int
  e_retakeVolume :: int
  e_fstat_first :: int
  e_devname_r :: bool
  e_BLCreateBooterInformationDictionary :: int
  e_fstat_second :: int
  e_boots :: "helper_run list option"
  e_needUpdates :: int
  e_doAny :: bool
  e_needRPS :: bool
  e_needBooters :: bool
  e_needMisc :: bool
  e_DASessionCreate :: bool
  e_applyStamps :: int

datatype update_event =
    HelperUpdated nat
  | HelperFailed nat
  | ApplyStamps
  | PutVolume int

text \<open>
  One pass of the loop body up to the label \<^verbatim>\<open>bootfail\<close>: \<open>True\<close> when
  \<^verbatim>\<open>bootupdates++\<close> is reached.
\<close>

definition update_helper :: "bool \<Rightarrow> bool \<Rightarrow> bool \<Rightarrow> helper_run \<Rightarrow> bool" where
  "update_helper do_rps do_booters do_misc h =
     (if r_mountBoot h \<noteq> 0 then False
      else if do_rps \<and> r_ucopyRPS h \<noteq> 0 then False
      else if r_nukeLabels h \<noteq> 0 then False
      else if do_booters \<and> r_ucopyBooters h \<noteq> 0 then False
      else if do_booters \<and> r_activateBooters h \<noteq> 0 then False
      else if do_rps \<and> r_activateRPS h \<noteq> 0 then False
      else if r_activateMisc h \<noteq> 0 then False
      else True)"

fun update_loop ::
  "bool \<Rightarrow> bool \<Rightarrow> bool \<Rightarrow> nat \<Rightarrow> helper_run list \<Rightarrow> nat \<times> update_event list" where
  "update_loop do_rps do_booters do_misc i [] = (0, [])"
| "update_loop do_rps do_booters do_misc i (h # hs) =
     (let (n, evs) = update_loop do_rps do_booters do_misc (i + 1) hs
      in if update_helper do_rps do_booters do_misc h
         then (n + 1, HelperUpdated i # evs)
         else (n, HelperFailed i # evs))"

text \<open>
  The result is the return value, \<^verbatim>\<open>bootupdates\<close> and the events in order.
  \<^verbatim>\<open>putVolumeForPath(volRoot, rval)\<close> ends every run.
\<close>

definition updateBoots_body :: "update_env \<Rightarrow> bool \<Rightarrow> int \<times> nat \<times> update_event list" where
  "updateBoots_body e force =
     (if e_takeVolume e \<noteq> 0 then (0, 0, [])
      else if \<not> e_readCaches e then (0, 0, [])
      else if e_check_mkext e \<and> e_rebuild_mkext e \<noteq> 0 then (ELAST + 1, 0, [PutVolume 75])
      else if e_check_mkext e \<and> e_retakeVolume e \<noteq> 0 then (ELAST + 1, 0, [PutVolume 75])
      else
       (let pre = (if e_check_mkext e then [PutVolume 75] else [])
        in if e_fstat_first e \<noteq> 0 then (ELAST + 1, 0, pre)
           else if \<not> e_devname_r e then (ELAST + 1, 0, pre)
           else if e_BLCreateBooterInformationDictionary e \<noteq> 0 then (ELAST + 1, 0, pre)
           else if e_fstat_second e \<noteq> 0 then (ELAST + 1, 0, pre)
           else case e_boots e of
             None \<Rightarrow> (ELAST + 1, 0, pre)
           | Some boots \<Rightarrow>
               if length boots = 0 then (0, 0, pre)
               else if e_needUpdates e \<noteq> 0 then (ELAST + 1, 0, pre)
               else if \<not> e_doAny e \<and> \<not> force then (0, 0, pre)
               else
                (let do_rps = (force \<or> e_needRPS e);
                     do_booters = (force \<or> e_needBooters e);
                     do_misc = (force \<or> e_needMisc e)
                 in if \<not> e_DASessionCreate e then (ELAST + 1, 0, pre)
                    else
                     (let (bootupdates, evs) = update_loop do_rps do_booters do_misc 0 boots
                      in if bootupdates \<noteq> length boots then (ELAST + 1, bootupdates, pre @ evs)
                         else if e_applyStamps e \<noteq> 0
                         then (ELAST + 1, bootupdates, pre @ evs @ [ApplyStamps])
                         else (0, bootupdates, pre @ evs @ [ApplyStamps])))))"

definition updateBoots :: "update_env \<Rightarrow> bool \<Rightarrow> int \<times> nat \<times> update_event list" where
  "updateBoots e force =
     (case updateBoots_body e force of
        (rval, bootupdates, evs) \<Rightarrow> (rval, bootupdates, evs @ [PutVolume rval]))"

definition stamps_applied :: "int \<times> nat \<times> update_event list \<Rightarrow> bool" where
  "stamps_applied r \<longleftrightarrow> ApplyStamps \<in> set (snd (snd r))"

text \<open>
  The words of the statements about updateBoots. The update is started when every call
  before the loop succeeds and something is out of date (or the update is forced). A helper
  has succeeded when every stage that the loop runs on it returned 0: the RPS stages run
  when the RPS directory is out of date, the booter stages when a booter is; the result of
  ucopyMisc is not read. A helper has completed its update in a run when the update was
  started and the helper succeeded; it has failed when the update was started and a stage
  did not return 0.
\<close>

definition update_started :: "update_env \<Rightarrow> bool \<Rightarrow> bool" where
  "update_started e force \<longleftrightarrow>
     e_takeVolume e = 0 \<and> e_readCaches e
     \<and> (e_check_mkext e \<longrightarrow> e_rebuild_mkext e = 0 \<and> e_retakeVolume e = 0)
     \<and> e_fstat_first e = 0 \<and> e_devname_r e
     \<and> e_BLCreateBooterInformationDictionary e = 0 \<and> e_fstat_second e = 0
     \<and> e_needUpdates e = 0 \<and> (e_doAny e \<or> force) \<and> e_DASessionCreate e"

definition helper_succeeded :: "update_env \<Rightarrow> bool \<Rightarrow> helper_run \<Rightarrow> bool" where
  "helper_succeeded e force h \<longleftrightarrow>
     r_mountBoot h = 0
     \<and> (force \<or> e_needRPS e \<longrightarrow> r_ucopyRPS h = 0)
     \<and> r_nukeLabels h = 0
     \<and> (force \<or> e_needBooters e \<longrightarrow> r_ucopyBooters h = 0 \<and> r_activateBooters h = 0)
     \<and> (force \<or> e_needRPS e \<longrightarrow> r_activateRPS h = 0)
     \<and> r_activateMisc h = 0"

definition helper_completed :: "update_env \<Rightarrow> bool \<Rightarrow> helper_run \<Rightarrow> bool" where
  "helper_completed e force h \<longleftrightarrow> update_started e force \<and> helper_succeeded e force h"

definition helper_failed :: "update_env \<Rightarrow> bool \<Rightarrow> helper_run \<Rightarrow> bool" where
  "helper_failed e force h \<longleftrightarrow> update_started e force \<and> \<not> helper_succeeded e force h"

section \<open>bootcaches.c\<close>

subsection \<open>needsUpdate\<close>

text \<open>
  C's integer division, which truncates towards zero, for \<^verbatim>\<open>tv_nsec / 1000\<close>.
\<close>

definition c_div :: "int \<Rightarrow> int \<Rightarrow> int" where
  "c_div a b = sgn a * sgn b * (\<bar>a\<bar> div \<bar>b\<bar>)"

text \<open>
  The result is \<open>(bsderr, cpath, *outofdate)\<close>; the last is \<open>None\<close> when the function
  returns without assigning it. The comparison is the one of the source:
  \<^verbatim>\<open>tsb.st_mtimespec.tv_sec != rsb.st_mtimespec.tv_sec ||
  tsb.st_mtimespec.tv_nsec != tsb.st_mtimespec.tv_nsec\<close>.
\<close>

definition needsUpdate ::
  "kstate \<Rightarrow> path \<Rightarrow> cachedPath \<Rightarrow> (int \<times> cachedPath \<times> bool option) \<times> kstate" where
  "needsUpdate k rt cpath =
     (case pathcpy rt of None \<Rightarrow> ((-1, cpath, None), k) | Some rp0 \<Rightarrow>
      case pathcat rp0 (rpath cpath) of None \<Rightarrow> ((-1, cpath, None), k) | Some fullrp \<Rightarrow>
      case pathcpy rt of None \<Rightarrow> ((-1, cpath, None), k) | Some tsp0 \<Rightarrow>
      case pathcat tsp0 (tspath cpath) of None \<Rightarrow> ((-1, cpath, None), k) | Some fulltsp \<Rightarrow>
      case k_stat k fullrp of
        (None, k1) \<Rightarrow>
          if errno k1 = ENOENT then ((0, cpath, None), k1) else ((-1, cpath, None), k1)
      | (Some rsb, k1) \<Rightarrow>
         (let cpath' = cpath\<lparr>tstamps :=
                 (\<lparr>tv_sec' = tv_sec (st_atimespec rsb),
                   tv_usec = c_div (tv_nsec (st_atimespec rsb)) 1000\<rparr>,
                  \<lparr>tv_sec' = tv_sec (st_mtimespec rsb),
                   tv_usec = c_div (tv_nsec (st_mtimespec rsb)) 1000\<rparr>)\<rparr>
          in case k_stat k1 fulltsp of
               (Some tsb, k2) \<Rightarrow>
                 (let ood = (tv_sec (st_mtimespec tsb) \<noteq> tv_sec (st_mtimespec rsb) \<or>
                             tv_nsec (st_mtimespec tsb) \<noteq> tv_nsec (st_mtimespec tsb))
                  in ((0, cpath', Some ood), k2))
             | (None, k2) \<Rightarrow>
                 if errno k2 = ENOENT then ((0, cpath', Some True), k2)
                 else ((-1, cpath', None), k2)))"

subsection \<open>parseDict\<close>

text \<open>
  CoreFoundation is not part of the repository. A property list is the datatype
  \<open>plist\<close>; a dictionary is an association list in which the first binding of a key
  counts, so \<^verbatim>\<open>CFDictionaryGetCount\<close> is the number of distinct keys. The two string
  conversions succeed when the bytes and the terminating NUL fit the buffer. Allocation
  is taken to succeed.
\<close>

definition kBCPreBootKey :: string where "kBCPreBootKey = ''PreBootPaths''"
definition kBCLabelKey :: string where "kBCLabelKey = ''DiskLabel''"
definition kBCBootersKey :: string where "kBCBootersKey = ''BooterPaths''"
definition kBCEFIBooterKey :: string where "kBCEFIBooterKey = ''EFIBooter''"
definition kBCPostBootKey :: string where "kBCPostBootKey = ''PostBootPaths''"
definition kBCMKextKey :: string where "kBCMKextKey = ''MKext''"
definition kBCArchsKey :: string where "kBCArchsKey = ''Archs''"
definition kBCExtensionsDirKey :: string where "kBCExtensionsDirKey = ''ExtensionsDir''"
definition kBCPathKey :: string where "kBCPathKey = ''Path''"
definition kBCAdditionalPathsKey :: string where "kBCAdditionalPathsKey = ''AdditionalPaths''"
definition kBCBootConfigKey :: string where "kBCBootConfigKey = ''BootConfig''"

definition kTSCacheDir :: path where
  "kTSCacheDir = ''/System/Library/Caches/com.apple.bootstamps/''"

definition NCHARSUUID :: nat where "NCHARSUUID = 37"
definition INT_MAX :: int where "INT_MAX = 2147483647"
definition sizeof_cachedPath :: int where "sizeof_cachedPath = 2064"

type_synonym cfdict = "(string \<times> plist) list"

definition CFDictionaryGetCount :: "cfdict \<Rightarrow> int" where
  "CFDictionaryGetCount d = int (length (remdups (map fst d)))"

definition CFDictionaryGetValue :: "cfdict \<Rightarrow> string \<Rightarrow> plist option" where
  "CFDictionaryGetValue d key = map_of d key"

definition CFStringGetFileSystemRepresentation :: "string \<Rightarrow> nat \<Rightarrow> string option" where
  "CFStringGetFileSystemRepresentation str maxlen = (if length str < maxlen then Some str else None)"

definition CFStringGetCString :: "string \<Rightarrow> nat \<Rightarrow> string option" where
  "CFStringGetCString str maxlen = (if length str < maxlen then Some str else None)"

definition gsub :: "char \<Rightarrow> char \<Rightarrow> string \<Rightarrow> string" where
  "gsub old new str = map (\<lambda>c. if c = old then new else c) str"

definition fillCachedPath :: "cachedPath \<Rightarrow> string \<Rightarrow> string \<Rightarrow> int \<times> cachedPath" where
  "fillCachedPath cpath uuidchars relpath =
     (let (n1, ts1) = strlcat (tspath cpath) kTSCacheDir PATH_MAX
      in if n1 \<ge> PATH_MAX then (ELAST + 1, cpath\<lparr>tspath := ts1\<rparr>)
         else
          (let (n2, ts2) = strlcat ts1 uuidchars PATH_MAX
           in if n2 \<ge> PATH_MAX then (ELAST + 1, cpath\<lparr>tspath := ts2\<rparr>)
              else
               (let (n3, ts3) = strlcat ts2 ''/'' PATH_MAX
                in if n3 \<ge> PATH_MAX then (ELAST + 1, cpath\<lparr>tspath := ts3\<rparr>)
                   else
                    (let (n4, rp4) = strlcat (rpath cpath) relpath PATH_MAX
                     in if n4 \<ge> PATH_MAX then (ELAST + 1, cpath\<lparr>tspath := ts3, rpath := rp4\<rparr>)
                        else
                         (let (n5, ts5) = strlcat ts3 (gsub CHR ''/'' CHR '':'' relpath) PATH_MAX
                          in if n5 \<ge> PATH_MAX
                             then (ELAST + 1, cpath\<lparr>tspath := ts5, rpath := rp4\<rparr>)
                             else (0, cpath\<lparr>tspath := ts5, rpath := rp4\<rparr>))))))"

text \<open>
  The macro \<^verbatim>\<open>str2cachedPath(cpath, caches, relstr)\<close>; \<open>None\<close> is its
  \<^verbatim>\<open>goto finish\<close>.
\<close>

definition str2cachedPath :: "cachedPath \<Rightarrow> bootCaches \<Rightarrow> string \<Rightarrow> cachedPath option" where
  "str2cachedPath cpath c relstr =
     (case CFStringGetFileSystemRepresentation relstr PATH_MAX of
        None \<Rightarrow> None
      | Some relpath \<Rightarrow>
         (case CFStringGetCString (volUUIDStr c) NCHARSUUID of
            None \<Rightarrow> None
          | Some uuidchars \<Rightarrow>
             (case fillCachedPath cpath uuidchars relpath of
                (r, cpath') \<Rightarrow> if r \<noteq> 0 then None else Some cpath')))"

datatype parse_error = AllocationFailure | UnsupportedData | UnknownKeys | NullDereference

definition tv0 :: timeval where "tv0 = \<lparr>tv_sec' = 0, tv_usec = 0\<rparr>"

definition empty_cachedPath :: cachedPath where
  "empty_cachedPath = \<lparr>rpath = [], tspath = [], tstamps = (tv0, tv0)\<rparr>"

text \<open>The structure as \<^verbatim>\<open>calloc\<close> returns it, with \<^verbatim>\<open>cachefd = -1\<close>.\<close>

definition calloc_caches :: bootCaches where
  "calloc_caches =
     \<lparr>cachefd = -1, volUUIDStr = [], volname = [], root = [], cacheinfo = None, exts = [],
      nrps = 0, rpspaths = [], nmisc = 0, miscpaths = [],
      efibooter = empty_cachedPath, ofbooter = empty_cachedPath,
      mkext = None, bootconfig = None, label = None\<rparr>"

text \<open>
  The loop over the \<^verbatim>\<open>AdditionalPaths\<close> array: element \<open>i\<close> fills slot \<open>i\<close> of
  the array of cached paths.
\<close>

fun add_paths ::
  "bootCaches \<Rightarrow> plist list \<Rightarrow> nat \<Rightarrow> cachedPath list \<Rightarrow> cachedPath list option" where
  "add_paths c [] i cps = Some cps"
| "add_paths c (PString str # rest) i cps =
     (case str2cachedPath (cps ! i) c str of
        None \<Rightarrow> None
      | Some cp \<Rightarrow> add_paths c rest (i + 1) (cps[i := cp]))"
| "add_paths c (_ # rest) i cps = None"

text \<open>
  The variable-sized member of a sub-dictionary: with \<^verbatim>\<open>AdditionalPaths\<close> the count
  of paths is the number of keys plus the length of the array minus one, and one key is
  consumed. The result is the count, the array, the next free index and the key counter.
\<close>

definition parse_apaths ::
  "bootCaches \<Rightarrow> cfdict \<Rightarrow> int \<Rightarrow> (int \<times> cachedPath list \<times> nat \<times> int) option" where
  "parse_apaths c dict keyCount =
     (let n0 = CFDictionaryGetCount dict
      in case CFDictionaryGetValue dict kBCAdditionalPathsKey of
           Some apaths \<Rightarrow>
             (case apaths of
                PArray elems \<Rightarrow>
                  (let acount = int (length elems); n = n0 + (acount - 1)
                   in if n > INT_MAX div sizeof_cachedPath then None
                      else case add_paths c elems 0 (replicate (nat n) empty_cachedPath) of
                             None \<Rightarrow> None
                           | Some cps \<Rightarrow> Some (n, cps, length elems, keyCount - 1))
              | _ \<Rightarrow> None)
         | None \<Rightarrow>
             if n0 > INT_MAX div sizeof_cachedPath then None
             else Some (n0, replicate (nat n0) empty_cachedPath, 0, keyCount))"

text \<open>The keys read "before the booter".\<close>

definition parse_preboot :: "bootCaches \<Rightarrow> cfdict \<Rightarrow> int \<Rightarrow> (bootCaches \<times> int) option" where
  "parse_preboot c bcDict keyCount0 =
     (case CFDictionaryGetValue bcDict kBCPreBootKey of
        None \<Rightarrow> Some (c, keyCount0)
      | Some (PDict dict) \<Rightarrow>
         (case parse_apaths c dict (keyCount0 + CFDictionaryGetCount dict) of
            None \<Rightarrow> None
          | Some (n, cps, miscindex, keyCount1) \<Rightarrow>
             (let c1 = c\<lparr>nmisc := n, miscpaths := cps\<rparr>
              in case CFDictionaryGetValue dict kBCLabelKey of
                   Some (PString str) \<Rightarrow>
                     (case str2cachedPath (cps ! miscindex) c1 str of
                        None \<Rightarrow> None
                      | Some cp \<Rightarrow>
                          Some (c1\<lparr>miscpaths := cps[miscindex := cp], label := Some miscindex\<rparr>,
                                keyCount1 - 1 - 1))
                 | Some _ \<Rightarrow> None
                 | None \<Rightarrow> Some (c1, keyCount1 - 1)))
      | Some _ \<Rightarrow> None)"

text \<open>
  The booter keys. The block that would read \<^verbatim>\<open>kBCOFBooterKey\<close> into
  \<^verbatim>\<open>caches->ofbooter\<close> is inside a comment in the source, as is the definition of the key.
\<close>

definition parse_booters :: "bootCaches \<Rightarrow> cfdict \<Rightarrow> int \<Rightarrow> (bootCaches \<times> int) option" where
  "parse_booters c bcDict keyCount0 =
     (case CFDictionaryGetValue bcDict kBCBootersKey of
        None \<Rightarrow> Some (c, keyCount0)
      | Some (PDict dict) \<Rightarrow>
         (let keyCount1 = keyCount0 + CFDictionaryGetCount dict
          in case CFDictionaryGetValue dict kBCEFIBooterKey of
               Some (PString str) \<Rightarrow>
                 (case str2cachedPath (efibooter c) c str of
                    None \<Rightarrow> None
                  | Some cp \<Rightarrow> Some (c\<lparr>efibooter := cp\<rparr>, keyCount1 - 1 - 1))
             | Some _ \<Rightarrow> None
             | None \<Rightarrow> Some (c, keyCount1 - 1))
      | Some _ \<Rightarrow> None)"

text \<open>
  The \<^verbatim>\<open>MKext\<close> sub-dictionary: \<^verbatim>\<open>CFGetTypeID\<close> is applied to the value of
  \<^verbatim>\<open>Path\<close> without a test for null.
\<close>

definition parse_mkext ::
  "bootCaches \<Rightarrow> cfdict \<Rightarrow> nat \<Rightarrow> int \<Rightarrow> parse_error + (bootCaches \<times> nat \<times> int)" where
  "parse_mkext c dict rpsindex keyCount =
     (case CFDictionaryGetValue dict kBCMKextKey of
        None \<Rightarrow> Inr (c, rpsindex, keyCount)
      | Some (PDict mkDict) \<Rightarrow>
         (case CFDictionaryGetValue mkDict kBCPathKey of
            None \<Rightarrow> Inl NullDereference
          | Some (PString str) \<Rightarrow>
             (case str2cachedPath (rpspaths c ! rpsindex) c str of
                None \<Rightarrow> Inl UnsupportedData
              | Some cp \<Rightarrow>
                 (let c1 = c\<lparr>rpspaths := (rpspaths c)[rpsindex := cp]\<rparr>
                  in case CFDictionaryGetValue mkDict kBCExtensionsDirKey of
                       Some (PString estr) \<Rightarrow>
                         (case CFStringGetFileSystemRepresentation estr PATH_MAX of
                            None \<Rightarrow> Inl UnsupportedData
                          | Some epath \<Rightarrow>
                             (let (n, e) = strlcat (exts c1) epath PATH_MAX
                              in if n \<ge> PATH_MAX then Inl UnsupportedData
                                 else Inr (c1\<lparr>exts := e, mkext := Some rpsindex\<rparr>,
                                           rpsindex + 1, keyCount - 1)))
                     | Some _ \<Rightarrow> Inl UnsupportedData
                     | None \<Rightarrow> Inr (c1\<lparr>mkext := Some rpsindex\<rparr>, rpsindex + 1, keyCount - 1)))
          | Some _ \<Rightarrow> Inl UnsupportedData)
      | Some _ \<Rightarrow> Inl UnsupportedData)"

definition parse_postboot ::
  "bootCaches \<Rightarrow> cfdict \<Rightarrow> int \<Rightarrow> parse_error + (bootCaches \<times> int)" where
  "parse_postboot c bcDict keyCount0 =
     (case CFDictionaryGetValue bcDict kBCPostBootKey of
        None \<Rightarrow> Inr (c, keyCount0)
      | Some (PDict dict) \<Rightarrow>
         (case parse_apaths c dict (keyCount0 + CFDictionaryGetCount dict) of
            None \<Rightarrow> Inl UnsupportedData
          | Some (n, cps, rpsindex0, keyCount1) \<Rightarrow>
             (let c1 = c\<lparr>nrps := n, rpspaths := cps\<rparr>;
                  r_bc = (case CFDictionaryGetValue dict kBCBootConfigKey of
                            Some (PString str) \<Rightarrow>
                              (case str2cachedPath (cps ! rpsindex0) c1 str of
                                 None \<Rightarrow> None
                               | Some cp \<Rightarrow>
                                   Some (c1\<lparr>rpspaths := cps[rpsindex0 := cp],
                                            bootconfig := Some rpsindex0\<rparr>,
                                         rpsindex0 + 1, keyCount1 - 1))
                          | Some _ \<Rightarrow> None
                          | None \<Rightarrow> Some (c1, rpsindex0, keyCount1))
              in case r_bc of
                   None \<Rightarrow> Inl UnsupportedData
                 | Some (c2, rpsindex1, keyCount2) \<Rightarrow>
                    (case parse_mkext c2 dict rpsindex1 keyCount2 of
                       Inl e \<Rightarrow> Inl e
                     | Inr (c3, rpsindex2, keyCount3) \<Rightarrow> Inr (c3, keyCount3 - 1))))
      | Some _ \<Rightarrow> Inl UnsupportedData)"

text \<open>
  parseDict returns the structure, or the reason for returning null. The volume's UUID
  string is \<open>None\<close> for a null pointer.
\<close>

definition parseDict ::
  "cfdict \<Rightarrow> path \<Rightarrow> string option \<Rightarrow> string \<Rightarrow> parse_error + bootCaches" where
  "parseDict bcDict rootpath volUUID volName =
     (case pathcpy rootpath of None \<Rightarrow> Inl AllocationFailure | Some rt \<Rightarrow>
      case volUUID of None \<Rightarrow> Inl AllocationFailure | Some uuid \<Rightarrow>
      case CFStringGetFileSystemRepresentation volName NAME_MAX of
        None \<Rightarrow> Inl AllocationFailure
      | Some vname \<Rightarrow>
         (let c0 = calloc_caches\<lparr>root := rt, volUUIDStr := uuid, volname := vname\<rparr>;
              keyCount0 = CFDictionaryGetCount bcDict
          in case parse_preboot c0 bcDict keyCount0 of
               None \<Rightarrow> Inl UnsupportedData
             | Some (c1, keyCount1) \<Rightarrow>
                (case parse_booters c1 bcDict keyCount1 of
                   None \<Rightarrow> Inl UnsupportedData
                 | Some (c2, keyCount2) \<Rightarrow>
                    (case parse_postboot c2 bcDict keyCount2 of
                       Inl e \<Rightarrow> Inl e
                     | Inr (c3, keyCount3) \<Rightarrow>
                        if keyCount3 \<noteq> 0 then Inl UnknownKeys
                        else Inr (c3\<lparr>cacheinfo := Some (PDict bcDict)\<rparr>)))))"

subsection \<open>Keys the parser does not know\<close>

text \<open>
  \<open>subdict d key\<close> is the sub-dictionary under \<open>key\<close> (empty when there is none),
  \<open>unknown_keys d known\<close> the number of keys of \<open>d\<close> outside \<open>known\<close>, and
  \<open>total_unknown_keys\<close> that number over the four dictionaries the key counter covers.
\<close>

definition subdict :: "cfdict \<Rightarrow> string \<Rightarrow> cfdict" where
  "subdict d key = (case CFDictionaryGetValue d key of Some (PDict sub) \<Rightarrow> sub | _ \<Rightarrow> [])"

definition unknown_keys :: "cfdict \<Rightarrow> string list \<Rightarrow> nat" where
  "unknown_keys d known = card (set (map fst d) - set known)"

definition has_key :: "cfdict \<Rightarrow> string \<Rightarrow> int" where
  "has_key d key = (if key \<in> set (map fst d) then 1 else 0)"

definition total_unknown_keys :: "cfdict \<Rightarrow> nat" where
  "total_unknown_keys bcDict =
     unknown_keys bcDict [kBCPreBootKey, kBCBootersKey, kBCPostBootKey]
     + unknown_keys (subdict bcDict kBCPreBootKey) [kBCAdditionalPathsKey, kBCLabelKey]
     + unknown_keys (subdict bcDict kBCBootersKey) [kBCEFIBooterKey]
     + unknown_keys (subdict bcDict kBCPostBootKey)
         [kBCAdditionalPathsKey, kBCBootConfigKey, kBCMKextKey]"

section \<open>A host volume and a helper partition\<close>

text \<open>
  A small world for the concrete evaluations: the host volume is mounted at
  \<^verbatim>\<open>/Volumes/HD\<close> on device 1, the helper partition at \<^verbatim>\<open>/Volumes/boot\<close> on
  device 2. Descriptor 3 is open on the host's bootcaches.plist, descriptor 4 on the
  helper's mount point. The booter on the host was modified at (100 s, 5 ns), its
  bootstamp at (100 s, 7 ns).
\<close>

definition ex_dir :: "nat \<Rightarrow> nat \<Rightarrow> inode" where
  "ex_dir d i = new_inode d i (S_IFDIR OR 0x1ED)"

definition ex_file :: "nat \<Rightarrow> nat \<Rightarrow> int \<Rightarrow> string \<Rightarrow> inode" where
  "ex_file d i ns str =
     (new_inode d i (S_IFREG OR 0x1A4))
       \<lparr>st_mtimespec := \<lparr>tv_sec = 100, tv_nsec = ns\<rparr>, i_data := str\<rparr>"

definition ex_fds :: "(int \<times> ofile) list" where
  "ex_fds =
     [(3, \<lparr>of_dev = 1, of_path = ''/Volumes/HD/bc.plist'', of_pdev = 1, of_isdir = False,
           of_flags = O_RDONLY, of_pos = 0\<rparr>),
      (4, \<lparr>of_dev = 2, of_path = ''/Volumes/boot'', of_pdev = 0, of_isdir = True,
           of_flags = O_RDONLY, of_pos = 0\<rparr>)]"

definition ex_k :: kstate where
  "ex_k =
     \<lparr>nodes = [(''/'', ex_dir 0 2), (''/Volumes'', ex_dir 0 3),
               (''/Volumes/HD'', ex_dir 1 2),
               (''/Volumes/HD/CS'', ex_dir 1 9),
               (''/Volumes/HD/CS/boot.efi'', ex_file 1 10 5 ''EFI''),
               (''/Volumes/HD/CS/BootX'', ex_file 1 11 5 ''OF''),
               (''/Volumes/HD/bc.plist'', ex_file 1 12 5 ''plist''),
               (''/Volumes/HD/stamp'', ex_file 1 13 7 []),
               (''/Volumes/boot'', ex_dir 2 2),
               (''/Volumes/boot/com.apple.boot.R'', ex_dir 2 20),
               (''/Volumes/boot/com.apple.boot.P'', ex_dir 2 21),
               (''/Volumes/boot/f'', ex_file 2 22 5 ''x'')],
      cwd = ''/'', cwd_dev = 0, fds = ex_fds, nextino = 100, errno = 0,
      faults = (\<lambda>_. None), olog = [], mlog = []\<rparr>"

text \<open>The same world with booters already on the helper.\<close>

definition ex_k_booted :: kstate where
  "ex_k_booted =
     ex_k\<lparr>nodes := (''/Volumes/boot/CS'', ex_dir 2 29)
                      # (''/Volumes/boot/CS/boot.efi'', ex_file 2 30 5 ''old'')
                      # (''/Volumes/boot/CS/BootX'', ex_file 2 31 5 ''old'') # nodes ex_k\<rparr>"

definition ex_efi :: cachedPath where
  "ex_efi = \<lparr>rpath = ''/CS/boot.efi'', tspath = ''/stamp'', tstamps = (tv0, tv0)\<rparr>"

definition ex_of :: cachedPath where
  "ex_of = \<lparr>rpath = ''/CS/BootX'', tspath = ''/stampx'', tstamps = (tv0, tv0)\<rparr>"

definition ex_caches :: bootCaches where
  "ex_caches =
     calloc_caches\<lparr>cachefd := 3, root := ''/Volumes/HD'', volUUIDStr := ''UUID'',
                    volname := ''HD'', efibooter := ex_efi\<rparr>"

definition ex_up :: updatingVol where
  "ex_up =
     \<lparr>curbootfd = 4, curMount = ''/Volumes/boot'', curBoot = True, curRPS = [], efidst = [],
      ofdst = [],
      changestate = nukedLabels, doRPS = True, doMisc = True, doBooters = True,
      caches = ex_caches\<rparr>"

text \<open>The same update when the host also names an Open Firmware booter.\<close>

definition ex_up_of :: updatingVol where
  "ex_up_of = ex_up\<lparr>caches := ex_caches\<lparr>ofbooter := ex_of\<rparr>\<rparr>"

text \<open>The update after the booters have been staged.\<close>

definition ex_up_staged :: updatingVol where
  "ex_up_staged = ex_up\<lparr>efidst := ''/Volumes/boot/CS/boot.efi''\<rparr>"

definition ex_up_of_staged :: updatingVol where
  "ex_up_of_staged =
     ex_up_of\<lparr>efidst := ''/Volumes/boot/CS/boot.efi'', ofdst := ''/Volumes/boot/CS/BootX''\<rparr>"

text \<open>
  Runs of updateBoots: every call before the loop succeeds and everything is out of date;
  a helper on which every stage returns 0, and one on which the booters cannot be staged.
\<close>

definition ex_helper_ok :: helper_run where
  "ex_helper_ok =
     \<lparr>r_mountBoot = 0, r_ucopyRPS = 0, r_nukeLabels = 0, r_ucopyBooters = 0,
      r_activateBooters = 0, r_activateRPS = 0, r_activateMisc = 0\<rparr>"

definition ex_helper_bad :: helper_run where
  "ex_helper_bad = ex_helper_ok\<lparr>r_ucopyBooters := ELAST + 1\<rparr>"

definition ex_env :: "helper_run list \<Rightarrow> update_env" where
  "ex_env hs =
     \<lparr>e_takeVolume = 0, e_readCaches = True, e_check_mkext = False, e_rebuild_mkext = 0,
      e_retakeVolume = 0, e_fstat_first = 0, e_devname_r = True,
      e_BLCreateBooterInformationDictionary = 0, e_fstat_second = 0, e_boots = Some hs,
      e_needUpdates = 0, e_doAny = True, e_needRPS = True, e_needBooters = True,
      e_needMisc = True, e_DASessionCreate = True, e_applyStamps = 0\<rparr>"

text \<open>A descriptor, and one that also names an Open Firmware booter.\<close>

definition ex_plist :: cfdict where
  "ex_plist =
     [(kBCPreBootKey, PDict [(kBCLabelKey, PString ''/CS/.disk_label'')]),
      (kBCBootersKey, PDict [(kBCEFIBooterKey, PString ''/CS/boot.efi'')]),
      (kBCPostBootKey,
         PDict [(kBCBootConfigKey, PString ''/L/Boot.plist''),
                (kBCMKextKey, PDict [(kBCPathKey, PString ''/E.mkext''),
                                     (kBCExtensionsDirKey, PString ''/E''),
                                     (kBCArchsKey, PArray [PString ''ppc''])]),
                (kBCAdditionalPathsKey, PArray [PString ''/mach_kernel''])])]"

definition ex_plist_of :: cfdict where
  "ex_plist_of =
     [(kBCBootersKey, PDict [(kBCEFIBooterKey, PString ''/CS/boot.efi''),
                             (''OFBooter'', PString ''/CS/BootX'')])]"

section \<open>Logs that only grow\<close>

text \<open>
  \<open>extends_within A l l'\<close>: the log \<open>l'\<close> is \<open>l\<close> followed by entries of \<open>A\<close>.
\<close>

definition extends_within :: "'a set \<Rightarrow> 'a list \<Rightarrow> 'a list \<Rightarrow> bool" where
  "extends_within A l l' \<longleftrightarrow> (\<exists>new. l' = l @ new \<and> set new \<subseteq> A)"

section \<open>Devices of descriptors and directories\<close>

text \<open>
  What the statements about the scope of a safe call observe: the device an open
  descriptor is on, the device of the directory its object was found in, the device of the
  object \<^verbatim>\<open>open\<close> finds at a path, and the changes made in directories of one device.
\<close>

definition scope_dev :: "kstate \<Rightarrow> int \<Rightarrow> nat option" where
  "scope_dev k fd = map_option of_dev (fd_lookup k fd)"

definition pdev_of :: "kstate \<Rightarrow> int \<Rightarrow> nat option" where
  "pdev_of k fd = map_option of_pdev (fd_lookup k fd)"

definition is_open :: "kstate \<Rightarrow> int \<Rightarrow> bool" where
  "is_open k fd \<longleftrightarrow> fd_lookup k fd \<noteq> None"

definition open_dev :: "kstate \<Rightarrow> path \<Rightarrow> nat option" where
  "open_dev k p =
     (if p = ''.'' then Some (cwd_dev k)
      else case faults k (resolve k p) of
        Some e \<Rightarrow> None
      | None \<Rightarrow> map_option st_dev (lookup k (resolve k p)))"

definition in_dev :: "nat \<Rightarrow> event set" where
  "in_dev d = {e. fst (snd e) = d}"

definition path_of :: "kstate \<Rightarrow> int \<Rightarrow> path option" where
  "path_of k fd = map_option of_path (fd_lookup k fd)"

text \<open>
  The object a safe open reaches for a path: the base name, seen from the directory of the
  path. The inode number \<^verbatim>\<open>fstat\<close> reports for a path, and the same number as the
  32-bit entry of \<^verbatim>\<open>vinfo\<close> holds it.
\<close>

definition absolute :: "path \<Rightarrow> bool" where
  "absolute p \<longleftrightarrow> p \<noteq> [] \<and> hd p = CHR ''/''"

definition sopen_target :: "kstate \<Rightarrow> path \<Rightarrow> path" where
  "sopen_target k p = resolve (k\<lparr>cwd := resolve k (dirname p)\<rparr>) (basename p)"

definition ino_of :: "kstate \<Rightarrow> path \<Rightarrow> nat" where
  "ino_of k q = (case lookup k q of Some n \<Rightarrow> st_ino n | None \<Rightarrow> 0)"

definition ino32 :: "kstate \<Rightarrow> path \<Rightarrow> nat" where
  "ino32 k q = unat (of_nat (ino_of k q) :: 32 word)"

text \<open>
  A run from \<open>k\<close> to \<open>k'\<close> that changes entries only in directories of device
  \<open>d\<close> and leaves the descriptors that were open as they were.
\<close>

definition stays_on :: "nat \<Rightarrow> kstate \<Rightarrow> kstate \<Rightarrow> bool" where
  "stays_on d k k' \<longleftrightarrow>
     extends_within (in_dev d) (mlog k) (mlog k')
     \<and> (\<forall>y. is_open k y \<longrightarrow>
           is_open k' y \<and> scope_dev k' y = scope_dev k y \<and> pdev_of k' y = pdev_of k y)"

section \<open>Properties\<close>

lemma rps_paths_Some:
  assumes "length mnt + 17 < PATH_MAX"
  shows "rps_paths mnt =
    Some (mnt @ ''/'' @ kBootDirR, mnt @ ''/'' @ kBootDirP, mnt @ ''/'' @ kBootDirS)"
  using assms
  by (simp add: rps_paths_def pathcpy_def pathcat_def kBootDirR_def kBootDirP_def kBootDirS_def)

lemma k_stat_faults [simp]: "faults (snd (k_stat k p)) = faults k"
  by (simp add: k_stat_def Let_def split: option.splits)

lemma k_stat_nodes [simp]: "nodes (snd (k_stat k p)) = nodes k"
  by (simp add: k_stat_def Let_def split: option.splits)

lemma k_stat_cwd [simp]: "cwd (snd (k_stat k p)) = cwd k"
  by (simp add: k_stat_def Let_def split: option.splits)

lemma k_stat_present:
  "(\<exists>y. fst (k_stat k p) = Some y) \<longleftrightarrow>
     faults k (resolve k p) = None \<and> (\<exists>y. lookup k (resolve k p) = Some y)"
  by (simp add: k_stat_def Let_def split: option.splits)

lemma k_stat_resolve [simp]: "resolve (snd (k_stat k p)) q = resolve k q"
  by (simp add: resolve_def)

lemma k_stat_lookup [simp]: "lookup (snd (k_stat k p)) q = lookup k q"
  by (simp add: lookup_def)

text \<open>
  C2. For every subset of the three RPS directories present on the helper, FindRPSDir
  succeeds (the mount point leaving room for the names) and returns the triple
  (previous, current, next) in which current is: R when all three or none exist, the
  later of the two in the rotation R, P, S when two exist, and the only one when one
  exists; next is the successor of current in the cycle R, P, S, R (the missing name
  when two exist) and previous is the successor of next (the third name).
\<close>

theorem FindRPSDir_selection:
  assumes fit: "length (curMount up) + 17 < PATH_MAX"
  shows "fst (FindRPSDir k up) =
           (let c = rps_current_spec (rps_present k up)
            in Inr (rps_path up (rps_succ (rps_succ c)), rps_path up c, rps_path up (rps_succ c)))"
proof -
  let ?r = "curMount up @ ''/'' @ kBootDirR"
  let ?p = "curMount up @ ''/'' @ kBootDirP"
  let ?s = "curMount up @ ''/'' @ kBootDirS"
  have len: "length ?r < PATH_MAX" "length ?p < PATH_MAX" "length ?s < PATH_MAX"
    using fit by (simp_all add: kBootDirR_def kBootDirP_def kBootDirS_def)
  have cpy: "pathcpy ?r = Some ?r" "pathcpy ?p = Some ?p" "pathcpy ?s = Some ?s"
    using len by (simp_all add: pathcpy_def)
  have pres: "rps_present k up R \<longleftrightarrow> fst (k_stat k ?r) \<noteq> None"
    "rps_present k up P \<longleftrightarrow> fst (k_stat (snd (k_stat k ?r)) ?p) \<noteq> None"
    "rps_present k up S \<longleftrightarrow> fst (k_stat (snd (k_stat (snd (k_stat k ?r)) ?p)) ?s) \<noteq> None"
    by (simp_all add: rps_present_def rps_path_def k_stat_present)
  show ?thesis
    unfolding FindRPSDir_def rps_paths_Some [OF fit]
    apply (simp only: option.case prod.case Let_def split_beta)
    apply (cases "rps_present k up R"; cases "rps_present k up P"; cases "rps_present k up S")
    using cpy pres
           apply (simp_all add: rps_select_def rps_current_spec_def rps_path_def)
    done
qed

theorem FindRPSDir_selection_witness:
  "length (curMount ex_up) + 17 < PATH_MAX
   \<and> fst (FindRPSDir ex_k ex_up)
       = Inr (''/Volumes/boot/com.apple.boot.R'', ''/Volumes/boot/com.apple.boot.P'',
              ''/Volumes/boot/com.apple.boot.S'')"
proof -
  have fit: "length (curMount ex_up) + 17 < PATH_MAX"
    by code_simp
  have sel: "(let c = rps_current_spec (rps_present ex_k ex_up)
              in (Inr (rps_path ex_up (rps_succ (rps_succ c)), rps_path ex_up c,
                      rps_path ex_up (rps_succ c)) :: int + path \<times> path \<times> path))
             = Inr (''/Volumes/boot/com.apple.boot.R'', ''/Volumes/boot/com.apple.boot.P'',
                    ''/Volumes/boot/com.apple.boot.S'')"
    by code_simp
  from FindRPSDir_selection [OF fit, of ex_k] sel fit show ?thesis
    by simp
qed

subsection \<open>needsUpdate\<close>

lemma needsUpdate_stale_iff_seconds:
  assumes "pathcat rt (rpath cpath) = Some fullrp" "pathcat rt (tspath cpath) = Some fulltsp"
    "length rt < PATH_MAX"
    "k_stat k fullrp = (Some rsb, k1)" "k_stat k1 fulltsp = (Some tsb, k2)"
  shows "snd (snd (fst (needsUpdate k rt cpath)))
           = Some (tv_sec (st_mtimespec tsb) \<noteq> tv_sec (st_mtimespec rsb))"
  using assms by (simp add: needsUpdate_def pathcpy_def Let_def)

lemma needsUpdate_missing_bootstamp:
  assumes "pathcat rt (rpath cpath) = Some fullrp" "pathcat rt (tspath cpath) = Some fulltsp"
    "length rt < PATH_MAX"
    "k_stat k fullrp = (Some rsb, k1)" "k_stat k1 fulltsp = (None, k2)" "errno k2 = ENOENT"
  shows "snd (snd (fst (needsUpdate k rt cpath))) = Some True"
  using assms by (simp add: needsUpdate_def pathcpy_def Let_def)

text \<open>
  C1. The staleness check reports a path stale iff the bootstamp's modification time
  differs from the source's in the seconds or in the nanoseconds. The code compares the
  bootstamp's nanoseconds with themselves: here the source was modified at (100 s, 5 ns),
  the bootstamp at (100 s, 7 ns), both files exist, and needsUpdate reports the path as
  not out of date.
\<close>

theorem needsUpdate_nanoseconds_not_compared:
  "map_option st_mtimespec (lookup ex_k ''/Volumes/HD/CS/boot.efi'')
     = Some \<lparr>tv_sec = 100, tv_nsec = 5\<rparr>
   \<and> map_option st_mtimespec (lookup ex_k ''/Volumes/HD/stamp'')
     = Some \<lparr>tv_sec = 100, tv_nsec = 7\<rparr>
   \<and> snd (snd (fst (needsUpdate ex_k ''/Volumes/HD'' ex_efi))) = Some False"
  by code_simp

theorem needsUpdate_nanoseconds_not_compared_witness:
  "snd (snd (fst (needsUpdate ex_k ''/Volumes/HD'' ex_efi))) = Some False"
  using needsUpdate_nanoseconds_not_compared by simp

subsection \<open>sdeepmkdir\<close>

lemma sdeepmkdir_existing_returns_0:
  "p \<noteq> [] \<Longrightarrow> k_stat k p = (Some sb, k1) \<Longrightarrow> sdeepmkdir (Suc n) k fdvol p mode = Some (0, k1)"
  by (simp add: S_IFDIR_def)

lemma sdeepmkdir_missing_recurses:
  assumes "p \<noteq> []" "k_stat k p = (None, k1)" "errno k1 = ENOENT" "length (dirname p) < PATH_MAX"
  shows "sdeepmkdir (Suc n) k fdvol p mode =
           (case sdeepmkdir n k1 fdvol (dirname p) mode of
              None \<Rightarrow> None
            | Some (bsderr, k2) \<Rightarrow>
                if bsderr \<noteq> 0 then Some (bsderr, k2) else Some (smkdir k2 fdvol p mode))"
  using assms by simp

text \<open>
  C6. For a path whose existing component is not a directory, sdeepmkdir fails with
  ENOTDIR rather than reporting success. The code's test
  \<^verbatim>\<open>sb.st_mode & S_IFDIR == 0\<close> is never true: \<^verbatim>\<open>/Volumes/boot/f\<close> is a regular
  file, and sdeepmkdir on it returns 0.
\<close>

theorem sdeepmkdir_existing_file_succeeds:
  "map_option is_dir (lookup ex_k ''/Volumes/boot/f'') = Some False
   \<and> map_option fst (sdeepmkdir 1 ex_k 4 ''/Volumes/boot/f'' 0x1ED) = Some 0"
  by code_simp

theorem sdeepmkdir_existing_file_succeeds_witness:
  "map_option fst (sdeepmkdir 1 ex_k 4 ''/Volumes/boot/f'' 0x1ED) = Some 0"
  using sdeepmkdir_existing_file_succeeds by simp

subsection \<open>ucopyBooters\<close>

lemma ucopyBooters_no_of_booter:
  "rpath (ofbooter (caches up)) = [] \<Longrightarrow>
   ucopyBooters fuel k up = ucopyBooters_tail fuel k (up\<lparr>changestate := copyingOFBooter\<rparr>)"
  by (simp add: ucopyBooters_def)

text \<open>
  For evaluation: the same loop with the bound compared as an integer.
\<close>

lemma copy_loop_code [code]:
  "copy_loop k srcfd dstfd bytesLeft =
     (if bytesLeft > 0 then
        (let thisTime = (if int bytesLeft \<le> 1048576 then bytesLeft else MAXBSIZE);
             ((nr, buf), k1) = k_read k srcfd thisTime
         in if nr \<noteq> int thisTime then (False, k1)
            else (let (nw, k2) = k_write k1 dstfd buf
                  in if nw \<noteq> int thisTime then (False, k2)
                     else copy_loop k2 srcfd dstfd (bytesLeft - thisTime)))
      else (True, k))"
proof -
  have "min bytesLeft MAXBSIZE = (if int bytesLeft \<le> 1048576 then bytesLeft else MAXBSIZE)"
    by (simp add: MAXBSIZE_def min_def)
  then show ?thesis by (subst copy_loop.simps) (simp only:)
qed




text \<open>
  The block for the Open Firmware booter, which a parsed cache never enters, has no test
  of \<open>errno\<close>: on a helper without BootX it ends with ELAST + 1.
\<close>

lemma ucopyBooters_of_block_example:
  "lookup ex_k ''/Volumes/boot/CS/BootX'' = None
   \<and> map_option (\<lambda>(r, up, k). (r, changestate up, errno k = ENOENT, mlog k))
        (ucopyBooters 5 ex_k ex_up_of)
       = Some (ELAST + 1, copyingOFBooter, True, [])"
  by code_simp

subsection \<open>activateBooters\<close>

lemma activateBooters_of_Inl: "\<exists>fd. fst (activateBooters_of k up) = Inl fd"
  by (simp add: activateBooters_of_def Let_def split: prod.splits option.splits)

text \<open>
  The block for the Open Firmware booter, which a parsed cache never enters. After the
  type/creator has been set the source jumps to \<^verbatim>\<open>finish\<close> unconditionally:
  whenever the caches name an Open Firmware booter, activateBooters returns ELAST + 1 in
  state activatingOFBooter, and the finder info is not written.
\<close>

lemma activateBooters_of_present_fails:
  assumes "rpath (ofbooter (caches up)) \<noteq> []"
  shows "fst (activateBooters k up) = ELAST + 1
         \<and> changestate (fst (snd (activateBooters k up))) = activatingOFBooter"
proof -
  obtain r k1 where r: "activateBooters_of k (up\<lparr>changestate := activatingOFBooter\<rparr>) = (r, k1)"
    by (cases "activateBooters_of k (up\<lparr>changestate := activatingOFBooter\<rparr>)")
  with activateBooters_of_Inl [of k "up\<lparr>changestate := activatingOFBooter\<rparr>"]
  obtain fd where "r = Inl fd" by auto
  with r assms show ?thesis
    by (simp add: activateBooters_def Let_def activate_finish_def)
qed

lemma activateBooters_no_of_booter:
  "rpath (ofbooter (caches up)) = [] \<Longrightarrow>
   activateBooters k up = activateBooters_tail k (up\<lparr>changestate := activatingOFBooter\<rparr>) 0"
  by (simp add: activateBooters_def)

text \<open>
  The block for the Open Firmware booter on the example helper: BootX is flushed and gets
  its type/creator, and the function ends there.
\<close>

lemma activateBooters_of_block_example:
  "(case activateBooters ex_k_booted ex_up_of_staged of
      (r, up, k) \<Rightarrow> (r, changestate up, mlog k))
     = (ELAST + 1, activatingOFBooter,
        [(OpFullFsync, 2, ''/Volumes/boot/CS/BootX''),
         (OpSetXattr tbxichrp, 2, ''/Volumes/boot/CS/BootX'')])"
  by code_simp

subsection \<open>sopen\<close>

lemma extends_within_refl [simp]: "extends_within A l l"
  by (simp add: extends_within_def)

lemma extends_within_append [simp]: "extends_within A l (l @ new) \<longleftrightarrow> set new \<subseteq> A"
  by (auto simp: extends_within_def)

lemma extends_within_snoc:
  "extends_within A l l' \<Longrightarrow> x \<in> A \<Longrightarrow> extends_within A l (l' @ [x])"
  by (auto simp: extends_within_def)

lemma extends_within_trans:
  "extends_within A l l' \<Longrightarrow> extends_within A l' l'' \<Longrightarrow> extends_within A l l''"
  by (auto simp: extends_within_def)

lemma k_open_olog [simp]: "olog (snd (k_open k p f m)) = olog k @ [(p, f)]"
  by (simp add: k_open_def Let_def alloc_fd_def kfail_def log_event_def put_node_def
      split: option.splits)

lemma k_close_olog [simp]: "olog (snd (k_close k fd)) = olog k"
  by (simp add: k_close_def kfail_def split: option.splits)

lemma k_fchdir_olog [simp]: "olog (snd (k_fchdir k fd)) = olog k"
  by (simp add: k_fchdir_def kfail_def split: option.splits)

lemma k_fstat_olog [simp]: "olog (snd (k_fstat k fd)) = olog k"
  by (simp add: k_fstat_def split: option.splits)

lemma spolicy_olog [simp]: "olog (snd (spolicy k a b)) = olog k"
  by (simp add: spolicy_def split_beta split: option.splits prod.splits)

lemma schdirparent_finish_olog [simp]:
  "olog (schdirparent_finish k e s h od d) = olog k"
  by (simp add: schdirparent_finish_def Let_def)

lemma RESTOREDIR_olog [simp]: "olog (RESTOREDIR k s) = olog k"
  by (simp add: RESTOREDIR_def restoredir_def Let_def split_beta)

lemma schdirparent_olog:
  assumes "{(q, f). f = O_RDONLY} \<subseteq> A"
  shows "extends_within A (olog k) (olog (snd (schdirparent k fdvol pp ho hc)))"
  using assms
  by (auto simp: schdirparent_def Let_def split_beta split: option.splits)

lemma schdirparent_child:
  "fst (fst (schdirparent k fdvol (Some p) ho True)) = 0 \<Longrightarrow>
   snd (snd (fst (schdirparent k fdvol (Some p) ho True))) = basename p"
  by (auto simp: schdirparent_def Let_def split_beta split: if_splits)

text \<open>
  C9. For every call of sopen whose flags request O\_CREAT, the flags passed to the
  underlying open include O\_EXCL: the calls of \<^verbatim>\<open>open\<close> that sopen makes are
  read-only opens of directories and the one open of the target's base name with the
  flags \<open>flags OR O_EXCL\<close>, which carries the bit O\_EXCL; and whenever sopen returns a
  descriptor, that open has been made.
\<close>

theorem sopen_O_CREAT_forces_O_EXCL:
  assumes "flags AND O_CREAT \<noteq> 0"
  shows "extends_within ({(q, f). f = O_RDONLY} \<union> {(basename p, flags OR O_EXCL)})
           (olog k) (olog (snd (sopen k fdvol p flags mode)))
         \<and> (flags OR O_EXCL) AND O_EXCL = O_EXCL
         \<and> (fst (sopen k fdvol p flags mode) \<noteq> -1 \<longrightarrow>
              (basename p, flags OR O_EXCL) \<in> set (olog (snd (sopen k fdvol p flags mode))))"
proof -
  let ?A = "{(q, f). f = O_RDONLY} \<union> {(basename p, flags OR O_EXCL)}"
  have sp: "extends_within ?A (olog k) (olog (snd (schdirparent k fdvol (Some p) True True)))"
    by (rule schdirparent_olog) auto
  have w: "(flags OR O_EXCL) AND O_EXCL = O_EXCL"
    by (simp add: word_bw_comms word_ao_absorbs)
  show ?thesis
    using assms sp schdirparent_child [of k fdvol p True] w
    by (auto simp: sopen_def Let_def split_beta intro!: extends_within_snoc)
qed

theorem sopen_O_CREAT_forces_O_EXCL_witness:
  "(O_CREAT OR O_WRONLY) AND O_CREAT \<noteq> 0
   \<and> fst (sopen ex_k 4 ''/Volumes/boot/new'' (O_CREAT OR O_WRONLY) 0x1A4) \<noteq> -1
   \<and> (''new'', (O_CREAT OR O_WRONLY) OR O_EXCL)
       \<in> set (olog (snd (sopen ex_k 4 ''/Volumes/boot/new'' (O_CREAT OR O_WRONLY) 0x1A4)))"
proof -
  have h: "(O_CREAT OR O_WRONLY) AND O_CREAT \<noteq> 0"
    by (simp add: O_CREAT_def O_WRONLY_def)
  have r: "fst (sopen ex_k 4 ''/Volumes/boot/new'' (O_CREAT OR O_WRONLY) 0x1A4) \<noteq> -1"
    by code_simp
  have b: "basename ''/Volumes/boot/new'' = ''new''"
    by code_simp
  from sopen_O_CREAT_forces_O_EXCL [OF h, of "''/Volumes/boot/new''" ex_k 4 "0x1A4"] h r b
  show ?thesis by simp
qed

subsection \<open>updateBoots\<close>

lemma update_loop_count:
  "fst (update_loop a b c i hs) = length (filter (update_helper a b c) hs)"
  by (induction hs arbitrary: i) (simp_all add: split_beta)

lemma other_in_loop [simp]:
  "ApplyStamps \<notin> set (snd (update_loop a b c i hs))"
  "PutVolume r \<notin> set (snd (update_loop a b c i hs))"
  by (induction hs arbitrary: i) (simp_all add: split_beta)

lemma count_all: "length (filter Q hs) = length hs \<longleftrightarrow> (\<forall>j < length hs. Q (hs ! j))"
proof -
  have "length (filter Q hs) + length (filter (\<lambda>x. \<not> Q x) hs) = length hs"
    by (rule sum_length_filter_compl)
  then have "length (filter Q hs) = length hs \<longleftrightarrow> filter (\<lambda>x. \<not> Q x) hs = []"
    by auto
  also have "\<dots> \<longleftrightarrow> (\<forall>x \<in> set hs. Q x)" by (simp add: filter_empty_conv)
  also have "\<dots> \<longleftrightarrow> (\<forall>j < length hs. Q (hs ! j))" by (simp add: all_set_conv_all_nth)
  finally show ?thesis .
qed

lemma update_helper_stages:
  "update_helper (force \<or> e_needRPS e) (force \<or> e_needBooters e) c h
     \<longleftrightarrow> helper_succeeded e force h"
  unfolding update_helper_def helper_succeeded_def by (cases force) auto

lemma count_all_set: "length (filter Q hs) = length hs \<longleftrightarrow> (\<forall>x \<in> set hs. Q x)"
  by (simp add: count_all all_set_conv_all_nth)

lemma updateBoots_not_started:
  assumes "e_boots e = Some boots" "boots \<noteq> []" "\<not> update_started e force"
  shows "\<not> stamps_applied (updateBoots e force)"
proof -
  have "update_started e force
        \<or> ApplyStamps \<notin> set (snd (snd (updateBoots_body e force)))"
    unfolding updateBoots_body_def update_started_def
    by (simp add: Let_def assms(1,2))
  with assms(3) have "ApplyStamps \<notin> set (snd (snd (updateBoots_body e force)))" by simp
  then show ?thesis by (simp add: stamps_applied_def updateBoots_def split_beta)
qed

lemma updateBoots_started:
  assumes "e_boots e = Some boots" "boots \<noteq> []" "update_started e force"
  shows "updateBoots e force =
     (let n = fst (update_loop (force \<or> e_needRPS e) (force \<or> e_needBooters e)
                     (force \<or> e_needMisc e) 0 boots);
          evs = snd (update_loop (force \<or> e_needRPS e) (force \<or> e_needBooters e)
                     (force \<or> e_needMisc e) 0 boots);
          pre = (if e_check_mkext e then [PutVolume 75] else [])
      in if n \<noteq> length boots then (ELAST + 1, n, pre @ evs @ [PutVolume (ELAST + 1)])
         else if e_applyStamps e \<noteq> 0
         then (ELAST + 1, n, pre @ evs @ [ApplyStamps, PutVolume (ELAST + 1)])
         else (0, n, pre @ evs @ [ApplyStamps, PutVolume 0]))"
proof -
  from assms(3) have f: "e_takeVolume e = 0" "e_readCaches e"
    "\<not> (e_check_mkext e \<and> e_rebuild_mkext e \<noteq> 0)"
    "\<not> (e_check_mkext e \<and> e_retakeVolume e \<noteq> 0)"
    "e_fstat_first e = 0" "e_devname_r e" "e_BLCreateBooterInformationDictionary e = 0"
    "e_fstat_second e = 0" "e_needUpdates e = 0" "\<not> (\<not> e_doAny e \<and> \<not> force)"
    "e_DASessionCreate e"
    by (simp_all add: update_started_def)
  have l: "length boots \<noteq> 0" using assms(2) by simp
  have b: "updateBoots_body e force =
     (let n = fst (update_loop (force \<or> e_needRPS e) (force \<or> e_needBooters e)
                     (force \<or> e_needMisc e) 0 boots);
          evs = snd (update_loop (force \<or> e_needRPS e) (force \<or> e_needBooters e)
                     (force \<or> e_needMisc e) 0 boots);
          pre = (if e_check_mkext e then [PutVolume 75] else [])
      in if n \<noteq> length boots then (ELAST + 1, n, pre @ evs)
         else if e_applyStamps e \<noteq> 0 then (ELAST + 1, n, pre @ evs @ [ApplyStamps])
         else (0, n, pre @ evs @ [ApplyStamps]))"
    unfolding updateBoots_body_def
    by (simp only: f assms(1) l if_True if_False simp_thms option.case Let_def split_beta)
  show ?thesis unfolding updateBoots_def b by (simp add: Let_def)
qed

text \<open>
  C4. For every run of updateBoots over a host volume with N helper partitions, N at
  least 1 as the updater is specified, applyStamps is called if and only if every one of
  the N helpers completed its update; and if a helper fails, applyStamps is not called and
  updateBoots returns ELAST + 1.
\<close>

theorem updateBoots_stamps_iff_all_helpers:
  assumes "e_boots e = Some boots" "boots \<noteq> []"
  shows "(stamps_applied (updateBoots e force) \<longleftrightarrow>
            (\<forall>h \<in> set boots. helper_completed e force h))
         \<and> ((\<exists>h \<in> set boots. helper_failed e force h) \<longrightarrow>
              \<not> stamps_applied (updateBoots e force)
              \<and> fst (updateBoots e force) = ELAST + 1)"
proof -
  let ?a = "force \<or> e_needRPS e" and ?b = "force \<or> e_needBooters e"
  let ?c = "force \<or> e_needMisc e"
  let ?n = "fst (update_loop ?a ?b ?c 0 boots)"
  let ?evs = "snd (update_loop ?a ?b ?c 0 boots)"
  obtain h0 where h0: "h0 \<in> set boots" using assms(2) by (cases boots) auto
  have stamps: "stamps_applied (updateBoots e force) \<longleftrightarrow>
                  (\<forall>h \<in> set boots. helper_completed e force h)"
  proof (cases "update_started e force")
    case False
    have "\<not> stamps_applied (updateBoots e force)"
      using assms False by (rule updateBoots_not_started)
    moreover have "\<not> helper_completed e force h0" using False by (simp add: helper_completed_def)
    ultimately show ?thesis using h0 by blast
  next
    case True
    have all: "?n = length boots \<longleftrightarrow> (\<forall>h \<in> set boots. helper_succeeded e force h)"
      by (simp only: update_loop_count count_all_set update_helper_stages)
    have "stamps_applied (updateBoots e force) \<longleftrightarrow> ?n = length boots"
      unfolding updateBoots_started [OF assms True] stamps_applied_def
      by (simp add: Let_def)
    with all True show ?thesis by (simp add: helper_completed_def)
  qed
  have fails: "fst (updateBoots e force) = ELAST + 1"
    if s: "update_started e force" and f: "\<exists>h \<in> set boots. \<not> helper_completed e force h"
  proof -
    have all: "?n = length boots \<longleftrightarrow> (\<forall>h \<in> set boots. helper_succeeded e force h)"
      by (simp only: update_loop_count count_all_set update_helper_stages)
    from f s have "?n \<noteq> length boots" unfolding all by (auto simp: helper_completed_def)
    then show ?thesis unfolding updateBoots_started [OF assms s] by (simp add: Let_def)
  qed
  have hf: "(\<exists>h \<in> set boots. helper_failed e force h) \<longleftrightarrow>
              update_started e force \<and> (\<exists>h \<in> set boots. \<not> helper_completed e force h)"
    by (auto simp: helper_failed_def helper_completed_def)
  from stamps fails show ?thesis unfolding hf by blast
qed

theorem updateBoots_stamps_iff_all_helpers_witness:
  "e_boots (ex_env [ex_helper_ok, ex_helper_bad]) = Some [ex_helper_ok, ex_helper_bad]
   \<and> [ex_helper_ok, ex_helper_bad] \<noteq> []
   \<and> helper_completed (ex_env [ex_helper_ok, ex_helper_bad]) False ex_helper_ok
   \<and> helper_failed (ex_env [ex_helper_ok, ex_helper_bad]) False ex_helper_bad
   \<and> \<not> stamps_applied (updateBoots (ex_env [ex_helper_ok, ex_helper_bad]) False)
   \<and> fst (updateBoots (ex_env [ex_helper_ok, ex_helper_bad]) False) = ELAST + 1
   \<and> helper_completed (ex_env [ex_helper_ok, ex_helper_ok]) False ex_helper_ok
   \<and> stamps_applied (updateBoots (ex_env [ex_helper_ok, ex_helper_ok]) False)"
proof -
  have b: "e_boots (ex_env [ex_helper_ok, ex_helper_bad]) = Some [ex_helper_ok, ex_helper_bad]"
    and g: "e_boots (ex_env [ex_helper_ok, ex_helper_ok]) = Some [ex_helper_ok, ex_helper_ok]"
    by (simp_all add: ex_env_def)
  have ne: "[ex_helper_ok, ex_helper_bad] \<noteq> []" "[ex_helper_ok, ex_helper_ok] \<noteq> []"
    by simp_all
  have c: "helper_completed (ex_env hs) False ex_helper_ok" for hs
    by (simp add: helper_completed_def update_started_def helper_succeeded_def ex_env_def
        ex_helper_ok_def)
  have f: "helper_failed (ex_env hs) False ex_helper_bad" for hs
    by (simp add: helper_failed_def update_started_def helper_succeeded_def ex_env_def
        ex_helper_ok_def ex_helper_bad_def ELAST_def)
  from f have "\<exists>h \<in> set [ex_helper_ok, ex_helper_bad].
                 helper_failed (ex_env [ex_helper_ok, ex_helper_bad]) False h"
    by simp
  with updateBoots_stamps_iff_all_helpers [OF b ne(1), of False]
  have 1: "\<not> stamps_applied (updateBoots (ex_env [ex_helper_ok, ex_helper_bad]) False)"
    "fst (updateBoots (ex_env [ex_helper_ok, ex_helper_bad]) False) = ELAST + 1"
    by blast+
  from c have "\<forall>h \<in> set [ex_helper_ok, ex_helper_ok].
                 helper_completed (ex_env [ex_helper_ok, ex_helper_ok]) False h"
    by simp
  with updateBoots_stamps_iff_all_helpers [OF g ne(2), of False]
  have 2: "stamps_applied (updateBoots (ex_env [ex_helper_ok, ex_helper_ok]) False)"
    by blast
  from b ne(1) c f 1 2 show ?thesis by blast
qed

subsection \<open>parseDict\<close>

lemma count_card: "CFDictionaryGetCount d = int (card (set (map fst d)))"
  by (simp add: CFDictionaryGetCount_def length_remdups_card_conv)

lemma get_None: "CFDictionaryGetValue d key = None \<Longrightarrow> has_key d key = 0"
  by (simp add: CFDictionaryGetValue_def has_key_def map_of_eq_None_iff)

lemma get_Some: "CFDictionaryGetValue d key = Some v \<Longrightarrow> has_key d key = 1"
  by (auto simp: CFDictionaryGetValue_def has_key_def dest!: map_of_SomeD intro: rev_image_eqI)

lemma card_drop_key:
  "finite K \<Longrightarrow> int (card (K - {a})) = int (card K) - (if a \<in> K then 1 else 0)"
proof (cases "a \<in> K")
  case True
  assume "finite K"
  with True have "card K \<noteq> 0" by auto
  then have "int (card K - 1) = int (card K) - 1" by (cases "card K") simp_all
  with True show ?thesis by (simp add: card_Diff_singleton_if)
next
  case False
  then show ?thesis by simp
qed

lemma unknown_1:
  "int (unknown_keys d [a]) = CFDictionaryGetCount d - has_key d a"
  by (simp add: unknown_keys_def count_card has_key_def card_drop_key)

lemma unknown_2:
  assumes "a \<noteq> b"
  shows "int (unknown_keys d [a, b]) = CFDictionaryGetCount d - has_key d a - has_key d b"
proof -
  let ?K = "set (map fst d)"
  have "?K - set [a, b] = (?K - {a}) - {b}" by auto
  then have "int (unknown_keys d [a, b]) = int (card (?K - {a})) - (if b \<in> ?K - {a} then 1 else 0)"
    by (simp add: unknown_keys_def card_drop_key)
  also have "\<dots> = int (card ?K) - (if a \<in> ?K then 1 else 0) - (if b \<in> ?K then 1 else 0)"
    using assms by (simp add: card_drop_key)
  finally show ?thesis by (simp add: count_card has_key_def)
qed

lemma unknown_3:
  assumes "a \<noteq> b" "a \<noteq> c" "b \<noteq> c"
  shows "int (unknown_keys d [a, b, c])
           = CFDictionaryGetCount d - has_key d a - has_key d b - has_key d c"
proof -
  let ?K = "set (map fst d)"
  have "?K - set [a, b, c] = ((?K - {a}) - {b}) - {c}" by auto
  then have "int (unknown_keys d [a, b, c])
      = int (card ((?K - {a}) - {b})) - (if c \<in> (?K - {a}) - {b} then 1 else 0)"
    by (simp add: unknown_keys_def card_drop_key)
  also have "\<dots> = int (card (?K - {a})) - (if b \<in> ?K - {a} then 1 else 0)
                   - (if c \<in> ?K then 1 else 0)"
    using assms by (simp add: card_drop_key)
  also have "\<dots> = int (card ?K) - (if a \<in> ?K then 1 else 0) - (if b \<in> ?K then 1 else 0)
                   - (if c \<in> ?K then 1 else 0)"
    using assms by (simp add: card_drop_key)
  finally show ?thesis by (simp add: count_card has_key_def)
qed

lemma unknown_0_subset: "unknown_keys d known = 0 \<longleftrightarrow> set (map fst d) \<subseteq> set known"
  by (simp add: unknown_keys_def)

lemma parse_apaths_keyCount:
  "parse_apaths c dict kc = Some (n, cps, idx, kc') \<Longrightarrow>
   kc' = kc - has_key dict kBCAdditionalPathsKey"
  by (auto simp: parse_apaths_def Let_def split: option.splits plist.splits if_splits
      dest: get_None get_Some)

lemma key_names_distinct:
  "kBCAdditionalPathsKey \<noteq> kBCLabelKey" "kBCAdditionalPathsKey \<noteq> kBCBootConfigKey"
  "kBCAdditionalPathsKey \<noteq> kBCMKextKey" "kBCBootConfigKey \<noteq> kBCMKextKey"
  "kBCPreBootKey \<noteq> kBCBootersKey" "kBCPreBootKey \<noteq> kBCPostBootKey"
  "kBCBootersKey \<noteq> kBCPostBootKey"
  by (simp_all add: kBCAdditionalPathsKey_def kBCLabelKey_def kBCBootConfigKey_def
      kBCMKextKey_def kBCPreBootKey_def kBCBootersKey_def kBCPostBootKey_def)

lemma subdict_None: "CFDictionaryGetValue d key = None \<Longrightarrow> subdict d key = []"
  by (simp add: subdict_def)

lemma subdict_Some: "CFDictionaryGetValue d key = Some (PDict sub) \<Longrightarrow> subdict d key = sub"
  by (simp add: subdict_def)

lemma unknown_Nil [simp]: "unknown_keys [] known = 0"
  by (simp add: unknown_keys_def)

lemma parse_preboot_keyCount:
  assumes "parse_preboot c bcDict kc = Some (c', kc')"
  shows "kc' = kc + int (unknown_keys (subdict bcDict kBCPreBootKey)
                          [kBCAdditionalPathsKey, kBCLabelKey])
                 - has_key bcDict kBCPreBootKey"
proof (cases "CFDictionaryGetValue bcDict kBCPreBootKey")
  case None
  with assms show ?thesis
    by (simp add: parse_preboot_def subdict_None get_None)
next
  case (Some v)
  with assms obtain dict where v: "v = PDict dict"
    by (cases v) (simp_all add: parse_preboot_def)
  from assms Some v obtain n cps idx kc1 where
    ap: "parse_apaths c dict (kc + CFDictionaryGetCount dict) = Some (n, cps, idx, kc1)"
    by (auto simp: parse_preboot_def split: option.splits)
  from parse_apaths_keyCount [OF ap]
  have kc1: "kc1 = kc + CFDictionaryGetCount dict - has_key dict kBCAdditionalPathsKey" .
  have "kc' = kc1 - has_key dict kBCLabelKey - 1"
    using assms Some v ap
    by (auto simp: parse_preboot_def Let_def split: option.splits plist.splits
        dest: get_None get_Some)
  with kc1 show ?thesis
    by (simp add: unknown_2 [OF key_names_distinct(1)] subdict_Some [OF Some [unfolded v]]
        get_Some [OF Some])
qed

lemma parse_booters_keyCount:
  assumes "parse_booters c bcDict kc = Some (c', kc')"
  shows "kc' = kc + int (unknown_keys (subdict bcDict kBCBootersKey) [kBCEFIBooterKey])
                 - has_key bcDict kBCBootersKey"
proof (cases "CFDictionaryGetValue bcDict kBCBootersKey")
  case None
  with assms show ?thesis
    by (simp add: parse_booters_def subdict_None get_None)
next
  case (Some v)
  with assms obtain dict where v: "v = PDict dict"
    by (cases v) (simp_all add: parse_booters_def)
  have "kc' = kc + CFDictionaryGetCount dict - has_key dict kBCEFIBooterKey - 1"
    using assms Some v
    by (auto simp: parse_booters_def Let_def split: option.splits plist.splits
        dest: get_None get_Some)
  then show ?thesis
    by (simp add: unknown_1 subdict_Some [OF Some [unfolded v]] get_Some [OF Some])
qed

lemma parse_mkext_keyCount:
  assumes "parse_mkext c dict idx kc = Inr (c', idx', kc')"
  shows "kc' = kc - has_key dict kBCMKextKey"
  using assms
  by (auto simp: parse_mkext_def Let_def split_beta
      split: option.splits plist.splits if_splits dest: get_None get_Some)

lemma parse_postboot_keyCount:
  assumes "parse_postboot c bcDict kc = Inr (c', kc')"
  shows "kc' = kc + int (unknown_keys (subdict bcDict kBCPostBootKey)
                          [kBCAdditionalPathsKey, kBCBootConfigKey, kBCMKextKey])
                 - has_key bcDict kBCPostBootKey"
proof (cases "CFDictionaryGetValue bcDict kBCPostBootKey")
  case None
  with assms show ?thesis
    by (simp add: parse_postboot_def subdict_None get_None)
next
  case (Some v)
  with assms obtain dict where v: "v = PDict dict"
    by (cases v) (simp_all add: parse_postboot_def)
  from assms Some v obtain n cps idx kc1 where
    ap: "parse_apaths c dict (kc + CFDictionaryGetCount dict) = Some (n, cps, idx, kc1)"
    by (auto simp: parse_postboot_def split: option.splits)
  from parse_apaths_keyCount [OF ap]
  have kc1: "kc1 = kc + CFDictionaryGetCount dict - has_key dict kBCAdditionalPathsKey" .
  have "\<exists>c2 idx1 c3 idx2 kc3.
          parse_mkext c2 dict idx1 (kc1 - has_key dict kBCBootConfigKey) = Inr (c3, idx2, kc3)
          \<and> kc' = kc3 - 1"
  proof (cases "CFDictionaryGetValue dict kBCBootConfigKey")
    case None
    note bc = None
    from get_None [OF bc] have h: "has_key dict kBCBootConfigKey = 0" .
    show ?thesis
      using assms Some v ap bc unfolding h
      by (auto simp: parse_postboot_def Let_def split: option.splits sum.splits) blast+
  next
    case (Some w)
    note bc = Some
    from get_Some [OF bc] have h: "has_key dict kBCBootConfigKey = 1" .
    show ?thesis
      using assms \<open>CFDictionaryGetValue bcDict kBCPostBootKey = Some v\<close> v ap bc unfolding h
      by (auto simp: parse_postboot_def Let_def split: option.splits plist.splits sum.splits)
         blast+
  qed
  then obtain c2 idx1 c3 idx2 kc3 where
    mk: "parse_mkext c2 dict idx1 (kc1 - has_key dict kBCBootConfigKey) = Inr (c3, idx2, kc3)"
    and fin: "kc' = kc3 - 1"
    by blast
  from parse_mkext_keyCount [OF mk]
  have "kc3 = kc1 - has_key dict kBCBootConfigKey - has_key dict kBCMKextKey" .
  with kc1 fin show ?thesis
    by (simp add: unknown_3 [OF key_names_distinct(2,3,4)] subdict_Some [OF Some [unfolded v]]
        get_Some [OF Some])
qed

lemma keyCount_residue:
  assumes "parse_preboot c0 bcDict (CFDictionaryGetCount bcDict) = Some (c1, kc1)"
    and "parse_booters c1 bcDict kc1 = Some (c2, kc2)"
    and "parse_postboot c2 bcDict kc2 = Inr (c3, kc3)"
  shows "kc3 = int (total_unknown_keys bcDict)"
  using parse_preboot_keyCount [OF assms(1)] parse_booters_keyCount [OF assms(2)]
    parse_postboot_keyCount [OF assms(3)]
    unknown_3 [OF key_names_distinct(5,6,7), of bcDict]
  by (simp add: total_unknown_keys_def)

lemma parseDict_Inr_iff:
  "parseDict bcDict rootpath volUUID volName = Inr c \<Longrightarrow>
   \<exists>c0 c1 kc1 c2 kc2 c3.
     parse_preboot c0 bcDict (CFDictionaryGetCount bcDict) = Some (c1, kc1)
     \<and> parse_booters c1 bcDict kc1 = Some (c2, kc2)
     \<and> parse_postboot c2 bcDict kc2 = Inr (c3, 0)
     \<and> ofbooter c0 = empty_cachedPath
     \<and> c = c3\<lparr>cacheinfo := Some (PDict bcDict)\<rparr>"
  apply (auto simp: parseDict_def Let_def calloc_caches_def
      split: option.splits sum.splits if_splits)
  apply (intro exI conjI)
      apply assumption+
   apply simp_all
  done

lemma parseDict_total_unknown:
  assumes "parseDict bcDict rootpath volUUID volName = Inr c"
  shows "total_unknown_keys bcDict = 0"
proof -
  from parseDict_Inr_iff [OF assms] obtain c0 c1 kc1 c2 kc2 c3 where
    "parse_preboot c0 bcDict (CFDictionaryGetCount bcDict) = Some (c1, kc1)"
    "parse_booters c1 bcDict kc1 = Some (c2, kc2)"
    "parse_postboot c2 bcDict kc2 = Inr (c3, 0)"
    by blast
  from keyCount_residue [OF this] show ?thesis by simp
qed

text \<open>
  C8. Parsing succeeds only if no key that the parser does not understand is present:
  the counter starts at the number of top-level keys, grows by the number of keys of each
  of the PreBootPaths, BooterPaths and PostBootPaths sub-dictionaries and is decremented
  once per consumed key, so that its residue is the number of unknown keys
  (\<open>keyCount_residue\<close>); a descriptor that parses has none at the top level nor in the
  three sub-dictionaries.
\<close>

theorem parseDict_rejects_unknown_keys:
  assumes "parseDict bcDict rootpath volUUID volName = Inr c"
  shows "set (map fst bcDict) \<subseteq> {kBCPreBootKey, kBCBootersKey, kBCPostBootKey}
       \<and> set (map fst (subdict bcDict kBCPreBootKey)) \<subseteq> {kBCAdditionalPathsKey, kBCLabelKey}
       \<and> set (map fst (subdict bcDict kBCBootersKey)) \<subseteq> {kBCEFIBooterKey}
       \<and> set (map fst (subdict bcDict kBCPostBootKey))
           \<subseteq> {kBCAdditionalPathsKey, kBCBootConfigKey, kBCMKextKey}"
  using parseDict_total_unknown [OF assms]
  by (simp add: total_unknown_keys_def unknown_0_subset)

lemma parse_sections_ofbooter:
  "parse_preboot c bcDict kc = Some (c', kc') \<Longrightarrow> ofbooter c' = ofbooter c"
  "parse_booters c bcDict kc = Some (c', kc') \<Longrightarrow> ofbooter c' = ofbooter c"
  by (auto simp: parse_preboot_def parse_booters_def parse_apaths_def Let_def
      split: option.splits plist.splits if_splits)

lemma parse_mkext_ofbooter:
  "parse_mkext c dict idx kc = Inr (c', idx', kc') \<Longrightarrow> ofbooter c' = ofbooter c"
  by (auto simp: parse_mkext_def Let_def split_beta split: option.splits plist.splits if_splits)

lemma parse_postboot_ofbooter:
  "parse_postboot c bcDict kc = Inr (c', kc') \<Longrightarrow> ofbooter c' = ofbooter c"
  by (auto simp: parse_postboot_def Let_def
      split: option.splits plist.splits if_splits sum.splits dest!: parse_mkext_ofbooter)

lemma parseDict_ofbooter:
  assumes "parseDict bcDict rootpath volUUID volName = Inr c"
  shows "ofbooter c = empty_cachedPath"
proof -
  from parseDict_Inr_iff [OF assms] obtain c0 c1 kc1 c2 kc2 c3 where
    p: "parse_preboot c0 bcDict (CFDictionaryGetCount bcDict) = Some (c1, kc1)"
    "parse_booters c1 bcDict kc1 = Some (c2, kc2)"
    "parse_postboot c2 bcDict kc2 = Inr (c3, 0)"
    and c0: "ofbooter c0 = empty_cachedPath" and c: "c = c3\<lparr>cacheinfo := Some (PDict bcDict)\<rparr>"
    by blast
  from parse_sections_ofbooter(1) [OF p(1)] parse_sections_ofbooter(2) [OF p(2)]
    parse_postboot_ofbooter [OF p(3)] c0 c
  show ?thesis by simp
qed

theorem parseDict_rejects_unknown_keys_witness:
  "\<not> isl (parseDict ex_plist ''/Volumes/HD'' (Some ''UUID'') ''HD'')
   \<and> set (map fst ex_plist) \<subseteq> {kBCPreBootKey, kBCBootersKey, kBCPostBootKey}
   \<and> set (map fst (subdict ex_plist kBCBootersKey)) \<subseteq> {kBCEFIBooterKey}"
proof -
  have p: "\<not> isl (parseDict ex_plist ''/Volumes/HD'' (Some ''UUID'') ''HD'')"
    by code_simp
  then obtain c where "parseDict ex_plist ''/Volumes/HD'' (Some ''UUID'') ''HD'' = Inr c"
    by (cases "parseDict ex_plist ''/Volumes/HD'' (Some ''UUID'') ''HD''") simp_all
  from parseDict_rejects_unknown_keys [OF this] p show ?thesis
    by simp
qed

lemma parseDict_unknown_key_example:
  "parseDict ((''Foo'', PString ''x'') # ex_plist) ''/Volumes/HD'' (Some ''UUID'') ''HD''
     = Inl UnknownKeys"
  by code_simp

lemma parseDict_OFBooter_key_example:
  "parseDict ex_plist_of ''/Volumes/HD'' (Some ''UUID'') ''HD'' = Inl UnknownKeys"
  by code_simp

text \<open>
  C10. For every BootCaches structure that the descriptor parser produces, the path of
  the Open Firmware booter is the empty string, and the BooterPaths dictionary of the
  descriptor has no key but EFIBooter (any other entry makes the parser reject the
  descriptor). Hence on such caches the blocks for the Open Firmware booter are not
  entered: staging and activation continue at the EFI booter, rollback from
  \<^verbatim>\<open>copyingOFBooter\<close> continues at the labels, and the cleanup of fallbacks continues
  at the EFI booter's \<^verbatim>\<open>.old\<close> copy.
\<close>

theorem parseDict_never_sets_ofbooter:
  assumes "parseDict bcDict rootpath volUUID volName = Inr c"
  shows "rpath (ofbooter c) = []
       \<and> set (map fst (subdict bcDict kBCBootersKey)) \<subseteq> {kBCEFIBooterKey}
       \<and> ucopyBooters fuel k (up\<lparr>caches := c\<rparr>)
           = ucopyBooters_tail fuel k (up\<lparr>caches := c, changestate := copyingOFBooter\<rparr>)
       \<and> activateBooters k (up\<lparr>caches := c\<rparr>)
           = activateBooters_tail k (up\<lparr>caches := c, changestate := activatingOFBooter\<rparr>) 0
       \<and> revert_from_of am k (up\<lparr>caches := c\<rparr>) rval
           = revert_labels am k (up\<lparr>caches := c\<rparr>) rval
       \<and> nukeFallbacks fts k (up\<lparr>caches := c, curBoot := True, doBooters := True\<rparr>)
           = nukeFallbacks_from_efi fts k (up\<lparr>caches := c, curBoot := True, doBooters := True\<rparr>) 0"
proof -
  have e: "rpath (ofbooter c) = []"
    using parseDict_ofbooter [OF assms] by (simp add: empty_cachedPath_def)
  have b: "set (map fst (subdict bcDict kBCBootersKey)) \<subseteq> {kBCEFIBooterKey}"
    using parseDict_total_unknown [OF assms]
    by (simp add: total_unknown_keys_def unknown_0_subset)
  show ?thesis
    using e b
    by (simp add: ucopyBooters_def activateBooters_def revert_from_of_def nukeFallbacks_def)
qed

theorem parseDict_never_sets_ofbooter_witness:
  "\<not> isl (parseDict ex_plist ''/Volumes/HD'' (Some ''UUID'') ''HD'')
   \<and> rpath (ofbooter (projr (parseDict ex_plist ''/Volumes/HD'' (Some ''UUID'') ''HD''))) = []
   \<and> rpath (efibooter (projr (parseDict ex_plist ''/Volumes/HD'' (Some ''UUID'') ''HD'')))
       = ''/CS/boot.efi''"
proof -
  have p: "\<not> isl (parseDict ex_plist ''/Volumes/HD'' (Some ''UUID'') ''HD'')"
    by code_simp
  have q: "rpath (efibooter (projr (parseDict ex_plist ''/Volumes/HD'' (Some ''UUID'') ''HD'')))
       = ''/CS/boot.efi''"
    by code_simp
  from p obtain c where c: "parseDict ex_plist ''/Volumes/HD'' (Some ''UUID'') ''HD'' = Inr c"
    by (cases "parseDict ex_plist ''/Volumes/HD'' (Some ''UUID'') ''HD''") simp_all
  from parseDict_never_sets_ofbooter [OF c] have "rpath (ofbooter c) = []"
    by blast
  with c p q show ?thesis by simp
qed

subsection \<open>The scope of the safe calls\<close>

text \<open>
  Every safe call changes into the directory of its target, compares the device of that
  directory with the device of the scope descriptor, and makes its system call on the base
  name. The lemmas follow the calls one by one: what a system call leaves unchanged, that
  the descriptors opened on the way are new, and that after schdirparent has succeeded the
  working directory is on the device of the scope.
\<close>

lemma fresh_fd_greater: "(fd, f) \<in> set l \<Longrightarrow> fd < foldr (\<lambda>(fd, _) m. max (fd + 1) m) l (0::int)"
  by (induction l) (auto simp: max_def split: if_splits)

lemma fresh_fd_nonneg: "0 \<le> foldr (\<lambda>(fd, _) m. max (fd + 1) m) l (0::int)"
  by (induction l) (auto simp: max_def)

lemma fresh_fd_unused: "fd_lookup k (fresh_fd k) = None"
proof (rule ccontr)
  assume "fd_lookup k (fresh_fd k) \<noteq> None"
  then obtain f where "map_of (fds k) (fresh_fd k) = Some f"
    by (auto simp: fd_lookup_def)
  then have "(fresh_fd k, f) \<in> set (fds k)" by (rule map_of_SomeD)
  from fresh_fd_greater [OF this] show False by (simp add: fresh_fd_def)
qed

lemma fresh_fd_not_minus1: "fresh_fd k \<noteq> -1"
  using fresh_fd_nonneg [of "fds k"] by (simp add: fresh_fd_def)

lemma alloc_fd_fst [simp]: "fst (alloc_fd f k) = fresh_fd k"
  by (simp add: alloc_fd_def)

lemma alloc_fd_lookup:
  "fd_lookup (snd (alloc_fd f k)) y = (if y = fresh_fd k then Some f else fd_lookup k y)"
  by (simp add: alloc_fd_def fd_lookup_def)

lemma alloc_fd_proj [simp]:
  "mlog (snd (alloc_fd f k)) = mlog k" "nodes (snd (alloc_fd f k)) = nodes k"
  "cwd_dev (snd (alloc_fd f k)) = cwd_dev k" "cwd (snd (alloc_fd f k)) = cwd k"
  "faults (snd (alloc_fd f k)) = faults k"
  by (simp_all add: alloc_fd_def)

lemma kfail_proj [simp]:
  "fst (kfail e k) = -1"
  "mlog (snd (kfail e k)) = mlog k" "nodes (snd (kfail e k)) = nodes k"
  "cwd_dev (snd (kfail e k)) = cwd_dev k" "cwd (snd (kfail e k)) = cwd k"
  "faults (snd (kfail e k)) = faults k" "fds (snd (kfail e k)) = fds k"
  "fd_lookup (snd (kfail e k)) y = fd_lookup k y"
  by (simp_all add: kfail_def fd_lookup_def)

lemma scope_dev_kfail [simp]: "scope_dev (snd (kfail e k)) y = scope_dev k y"
  by (simp add: scope_dev_def)

lemma is_slash_iff: "is_slash c \<longleftrightarrow> c = CHR ''/''"
  by (simp add: is_slash_def)

lemma basename_cases:
  "simple_name (basename p) \<or> basename p = ''/'' \<or> basename p = ''.'' \<or> basename p = ''..''"
proof (cases "p = [] \<or> strip_slashes p = []")
  case True
  then show ?thesis by (auto simp: basename_def Let_def)
next
  case False
  define r where "r = rev (strip_slashes p)"
  from False have r: "r \<noteq> []" by (simp add: r_def)
  have "r = dropWhile is_slash (rev p)" by (simp add: r_def strip_slashes_def)
  with r have "\<not> is_slash (hd r)" by (metis hd_dropWhile)
  with r have ne: "takeWhile (\<lambda>c. \<not> is_slash c) r \<noteq> []" by (cases r) auto
  have b: "basename p = rev (takeWhile (\<lambda>c. \<not> is_slash c) r)"
    using False by (simp add: basename_def Let_def r_def)
  have "\<forall>c \<in> set (takeWhile (\<lambda>c. \<not> is_slash c) r). \<not> is_slash c"
    by (auto dest: set_takeWhileD)
  then have "CHR ''/'' \<notin> set (basename p)" by (auto simp: b is_slash_iff)
  moreover have "basename p \<noteq> []" using ne by (simp add: b)
  ultimately show ?thesis by (auto simp: simple_name_def)
qed

lemma parent_dev_basename:
  "parent_dev k (basename p) = None \<or> parent_dev k (basename p) = Some (cwd_dev k)"
proof -
  have s: "strip_slashes ''/'' = []" by (simp add: strip_slashes_def is_slash_def)
  have d: "basename ''.'' = ''.''" "basename ''..'' = ''..''"
    by (simp_all add: basename_def strip_slashes_def is_slash_def)
  have n: "\<not> simple_name ''/''" "\<not> simple_name ''.''" "\<not> simple_name ''..''"
    by (simp_all add: simple_name_def)
  from basename_cases [of p] show ?thesis
    by (auto simp: parent_dev_def s d n)
qed

lemma map_of_filter_neq:
  "map_of (filter (\<lambda>(n, _). n \<noteq> x) l) y = (if y = x then None else map_of l y)"
  by (induction l) auto

lemma set_fd_lookup:
  "fd_lookup (set_fd fd f k) y = (if y = fd then Some f else fd_lookup k y)"
  by (simp add: set_fd_def fd_lookup_def map_of_filter_neq)

lemma open_fd_not_fresh: "scope_dev k y = Some d \<Longrightarrow> y \<noteq> fresh_fd k"
  using fresh_fd_unused [of k] by (auto simp: scope_dev_def)

lemma k_open_fst: "fst (k_open k p fl m) = -1 \<or> fst (k_open k p fl m) = fresh_fd k"
  by (simp add: k_open_def Let_def alloc_fd_def kfail_def fresh_fd_def log_event_def
      put_node_def split: option.splits)

lemma k_open_fd_lookup:
  "y \<noteq> fresh_fd k \<Longrightarrow> fd_lookup (snd (k_open k p fl m)) y = fd_lookup k y"
  by (simp add: k_open_def Let_def alloc_fd_def kfail_def fresh_fd_def log_event_def
      put_node_def fd_lookup_def split: option.splits)

lemma k_open_cwd [simp]:
  "cwd_dev (snd (k_open k p fl m)) = cwd_dev k" "cwd (snd (k_open k p fl m)) = cwd k"
  "faults (snd (k_open k p fl m)) = faults k"
  by (simp_all add: k_open_def Let_def alloc_fd_def kfail_def log_event_def
      put_node_def split: option.splits)

lemma k_open_readonly [simp]:
  "mlog (snd (k_open k p O_RDONLY m)) = mlog k" "nodes (snd (k_open k p O_RDONLY m)) = nodes k"
  by (simp_all add: k_open_def Let_def alloc_fd_def kfail_def O_RDONLY_def
      split: option.splits)

lemma parent_dev_olog [simp]: "parent_dev (k\<lparr>olog := l\<rparr>) p = parent_dev k p"
  by (simp add: parent_dev_def lookup_def resolve_def)

lemma k_close_proj [simp]:
  "mlog (snd (k_close k x)) = mlog k" "nodes (snd (k_close k x)) = nodes k"
  "cwd_dev (snd (k_close k x)) = cwd_dev k" "cwd (snd (k_close k x)) = cwd k"
  "faults (snd (k_close k x)) = faults k"
  by (simp_all add: k_close_def split: option.splits)

lemma k_close_fd_lookup:
  "fd_lookup (snd (k_close k x)) y = (if y = x then None else fd_lookup k y)"
  by (auto simp: k_close_def fd_lookup_def map_of_filter_neq split: option.splits)

lemma k_fstat_proj [simp]:
  "mlog (snd (k_fstat k x)) = mlog k" "nodes (snd (k_fstat k x)) = nodes k"
  "cwd_dev (snd (k_fstat k x)) = cwd_dev k" "cwd (snd (k_fstat k x)) = cwd k"
  "faults (snd (k_fstat k x)) = faults k" "fds (snd (k_fstat k x)) = fds k"
  by (simp_all add: k_fstat_def split: option.splits)

lemma k_fstat_dev: "map_option st_dev (fst (k_fstat k x)) = scope_dev k x"
  by (simp add: k_fstat_def scope_dev_def new_inode_def split: option.splits)

lemma k_fchdir_proj [simp]:
  "mlog (snd (k_fchdir k x)) = mlog k" "nodes (snd (k_fchdir k x)) = nodes k"
  "faults (snd (k_fchdir k x)) = faults k" "fds (snd (k_fchdir k x)) = fds k"
  by (simp_all add: k_fchdir_def split: option.splits)

lemma k_fchdir_dev:
  "fst (k_fchdir k x) = 0 \<Longrightarrow> scope_dev k x = Some (cwd_dev (snd (k_fchdir k x)))"
  by (auto simp: k_fchdir_def scope_dev_def split: option.splits if_splits)

lemma k_stat_proj [simp]:
  "mlog (snd (k_stat k p)) = mlog k" "nodes (snd (k_stat k p)) = nodes k"
  "cwd_dev (snd (k_stat k p)) = cwd_dev k" "cwd (snd (k_stat k p)) = cwd k"
  "faults (snd (k_stat k p)) = faults k" "fds (snd (k_stat k p)) = fds k"
  by (simp_all add: k_stat_def Let_def split: option.splits)

lemma fts_chdir_proj [simp]:
  "mlog (fts_chdir k p) = mlog k" "nodes (fts_chdir k p) = nodes k"
  "faults (fts_chdir k p) = faults k" "fds (fts_chdir k p) = fds k"
  by (simp_all add: fts_chdir_def split: option.splits)

lemma k_mkdir_proj [simp]:
  "fds (snd (k_mkdir k p m)) = fds k" "cwd_dev (snd (k_mkdir k p m)) = cwd_dev k"
  by (simp_all add: k_mkdir_def Let_def log_event_def put_node_def split: option.splits)

lemma k_rmdir_proj [simp]:
  "fds (snd (k_rmdir k p)) = fds k" "cwd_dev (snd (k_rmdir k p)) = cwd_dev k"
  by (simp_all add: k_rmdir_def Let_def log_event_def del_node_def split: option.splits)

lemma k_unlink_proj [simp]:
  "fds (snd (k_unlink k p)) = fds k" "cwd_dev (snd (k_unlink k p)) = cwd_dev k"
  by (simp_all add: k_unlink_def Let_def log_event_def del_node_def split: option.splits)

lemma k_rename_proj [simp]:
  "fds (snd (k_rename k p q)) = fds k" "cwd_dev (snd (k_rename k p q)) = cwd_dev k"
  by (simp_all add: k_rename_def Let_def log_event_def split: option.splits)

lemma olog_irrelevant [simp]:
  "resolve (k\<lparr>olog := l\<rparr>) p = resolve k p" "lookup (k\<lparr>olog := l\<rparr>) p = lookup k p"
  "fresh_fd (k\<lparr>olog := l\<rparr>) = fresh_fd k" "fd_lookup (k\<lparr>olog := l\<rparr>) y = fd_lookup k y"
  by (simp_all add: resolve_def lookup_def fresh_fd_def fd_lookup_def)

lemma k_open_readonly_dev:
  assumes "fst (k_open k p O_RDONLY m) \<noteq> -1"
  shows "scope_dev (snd (k_open k p O_RDONLY m)) (fst (k_open k p O_RDONLY m)) = open_dev k p"
  using assms
  by (simp add: k_open_def Let_def O_RDONLY_def accmode_def scope_dev_def alloc_fd_lookup
      open_dev_def split: option.splits if_splits)

lemma k_open_readonly_fails:
  "open_dev k p = None \<Longrightarrow> fst (k_open k p O_RDONLY m) = -1"
  by (simp add: k_open_def Let_def O_RDONLY_def accmode_def open_dev_def
      split: option.splits if_splits)

lemma k_open_mlog:
  assumes "parent_dev k p = None \<or> parent_dev k p = Some d"
  shows "extends_within (in_dev d) (mlog k) (mlog (snd (k_open k p fl m)))"
  using assms
  by (auto simp: k_open_def Let_def alloc_fd_def kfail_def log_event_def put_node_def
      in_dev_def split: option.splits)

lemma k_open_excl_pdev:
  assumes "fl AND O_CREAT \<noteq> 0" "fl AND O_EXCL \<noteq> 0" "fst (k_open k p fl m) \<noteq> -1"
  shows "pdev_of (snd (k_open k p fl m)) (fst (k_open k p fl m)) = parent_dev k p"
  using assms
  by (auto simp: k_open_def Let_def alloc_fd_def kfail_def pdev_of_def log_event_def
      put_node_def fd_lookup_def split: option.splits if_splits)

lemma k_rename_mlog:
  assumes "parent_dev k p = None \<or> parent_dev k p = Some d"
  shows "extends_within (in_dev d) (mlog k) (mlog (snd (k_rename k p q)))"
  using assms
  by (auto simp: k_rename_def Let_def log_event_def in_dev_def
      split: option.splits)

lemma k_mkdir_mlog:
  assumes "parent_dev k p = None \<or> parent_dev k p = Some d"
  shows "extends_within (in_dev d) (mlog k) (mlog (snd (k_mkdir k p m)))"
  using assms
  by (auto simp: k_mkdir_def Let_def log_event_def put_node_def in_dev_def
      split: option.splits)

lemma k_rmdir_mlog:
  assumes "parent_dev k p = None \<or> parent_dev k p = Some d"
  shows "extends_within (in_dev d) (mlog k) (mlog (snd (k_rmdir k p)))"
  using assms
  by (auto simp: k_rmdir_def Let_def log_event_def del_node_def in_dev_def
      split: option.splits)

lemma k_unlink_mlog:
  assumes "parent_dev k p = None \<or> parent_dev k p = Some d"
  shows "extends_within (in_dev d) (mlog k) (mlog (snd (k_unlink k p)))"
  using assms
  by (auto simp: k_unlink_def Let_def log_event_def del_node_def in_dev_def
      split: option.splits)

lemma k_read_proj [simp]:
  "mlog (snd (k_read k x n)) = mlog k" "nodes (snd (k_read k x n)) = nodes k"
  "cwd_dev (snd (k_read k x n)) = cwd_dev k"
  by (simp_all add: k_read_def Let_def set_fd_def split: option.splits)

lemma fd_lookup_errno [simp]: "fd_lookup (k\<lparr>errno := e\<rparr>) y = fd_lookup k y"
  by (simp add: fd_lookup_def)

lemma k_read_devs [simp]:
  "scope_dev (snd (k_read k x n)) y = scope_dev k y"
  "pdev_of (snd (k_read k x n)) y = pdev_of k y"
  by (auto simp: k_read_def Let_def set_fd_lookup scope_dev_def pdev_of_def
      split: option.splits)

lemma fd_lookup_put_node [simp]: "fd_lookup (put_node p n k) y = fd_lookup k y"
  by (simp add: put_node_def fd_lookup_def)

lemma fd_lookup_log_event [simp]: "fd_lookup (log_event e k) y = fd_lookup k y"
  by (simp add: log_event_def fd_lookup_def)

lemma k_write_devs [simp]:
  "scope_dev (snd (k_write k x b)) y = scope_dev k y"
  "pdev_of (snd (k_write k x b)) y = pdev_of k y"
  by (auto simp: k_write_def Let_def set_fd_lookup scope_dev_def pdev_of_def
      split: option.splits)

lemma k_write_cwd_dev [simp]: "cwd_dev (snd (k_write k x b)) = cwd_dev k"
  by (simp add: k_write_def Let_def log_event_def put_node_def set_fd_def
      split: option.splits)

lemma k_write_mlog:
  assumes "pdev_of k x = None \<or> pdev_of k x = Some d"
  shows "extends_within (in_dev d) (mlog k) (mlog (snd (k_write k x b)))"
  using assms
  by (auto simp: k_write_def Let_def log_event_def put_node_def set_fd_def in_dev_def
      pdev_of_def split: option.splits)

lemma k_fchmod_devs [simp]:
  "fds (snd (k_fchmod k x m)) = fds k" "cwd_dev (snd (k_fchmod k x m)) = cwd_dev k"
  by (auto simp: k_fchmod_def Let_def log_event_def put_node_def split: option.splits)

lemma k_fchmod_mlog:
  assumes "pdev_of k x = None \<or> pdev_of k x = Some d"
  shows "extends_within (in_dev d) (mlog k) (mlog (snd (k_fchmod k x m)))"
  using assms
  by (auto simp: k_fchmod_def Let_def log_event_def put_node_def in_dev_def
      pdev_of_def split: option.splits)

lemma scope_dev_is_open: "scope_dev k y = Some d \<Longrightarrow> is_open k y"
  by (auto simp: scope_dev_def is_open_def)

lemma same_fds:
  "fds k' = fds k \<Longrightarrow> scope_dev k' y = scope_dev k y"
  "fds k' = fds k \<Longrightarrow> pdev_of k' y = pdev_of k y"
  "fds k' = fds k \<Longrightarrow> is_open k' y = is_open k y"
  "fds k' = fds k \<Longrightarrow> fresh_fd k' = fresh_fd k"
  by (simp_all add: scope_dev_def pdev_of_def is_open_def fd_lookup_def fresh_fd_def)

lemma new_fd_not_open:
  "is_open k y \<Longrightarrow> fst (k_open k p fl m) \<noteq> -1 \<Longrightarrow> fst (k_open k p fl m) \<noteq> y"
  using k_open_fst [of k p fl m] fresh_fd_unused [of k] by (auto simp: is_open_def)

lemma k_open_keeps:
  assumes "is_open k y"
  shows "is_open (snd (k_open k p fl m)) y"
    and "scope_dev (snd (k_open k p fl m)) y = scope_dev k y"
    and "pdev_of (snd (k_open k p fl m)) y = pdev_of k y"
proof -
  from assms have "y \<noteq> fresh_fd k" using fresh_fd_unused [of k] by (auto simp: is_open_def)
  then have "fd_lookup (snd (k_open k p fl m)) y = fd_lookup k y" by (rule k_open_fd_lookup)
  with assms show "is_open (snd (k_open k p fl m)) y"
    and "scope_dev (snd (k_open k p fl m)) y = scope_dev k y"
    and "pdev_of (snd (k_open k p fl m)) y = pdev_of k y"
    by (simp_all add: is_open_def scope_dev_def pdev_of_def)
qed

lemma k_open_new_is_open:
  "fst (k_open k p fl m) \<noteq> -1 \<Longrightarrow> is_open (snd (k_open k p fl m)) (fst (k_open k p fl m))"
  by (auto simp: k_open_def Let_def alloc_fd_def kfail_def is_open_def log_event_def
      put_node_def fd_lookup_def split: option.splits if_splits)

lemma k_close_keeps:
  assumes "x \<noteq> y"
  shows "is_open (snd (k_close k x)) y = is_open k y"
    and "scope_dev (snd (k_close k x)) y = scope_dev k y"
    and "pdev_of (snd (k_close k x)) y = pdev_of k y"
  using assms by (simp_all add: is_open_def scope_dev_def pdev_of_def k_close_fd_lookup)

lemmas k_fstat_keeps [simp] = same_fds [OF k_fstat_proj(6)]
lemmas k_fchdir_keeps [simp] = same_fds [OF k_fchdir_proj(4)]
lemmas k_stat_keeps [simp] = same_fds [OF k_stat_proj(6)]
lemmas fts_chdir_keeps [simp] = same_fds [OF fts_chdir_proj(4)]
lemmas k_mkdir_keeps [simp] = same_fds [OF k_mkdir_proj(1)]
lemmas k_rmdir_keeps [simp] = same_fds [OF k_rmdir_proj(1)]
lemmas k_unlink_keeps [simp] = same_fds [OF k_unlink_proj(1)]
lemmas k_rename_keeps [simp] = same_fds [OF k_rename_proj(1)]
lemmas k_fchmod_keeps [simp] = same_fds [OF k_fchmod_devs(1)]

lemma spolicy_proj [simp]:
  "mlog (snd (spolicy k a b)) = mlog k" "nodes (snd (spolicy k a b)) = nodes k"
  "cwd_dev (snd (spolicy k a b)) = cwd_dev k" "fds (snd (spolicy k a b)) = fds k"
  by (simp_all add: spolicy_def split_beta split: option.splits)

lemmas spolicy_keeps [simp] = same_fds [OF spolicy_proj(4)]

lemma spolicy_0:
  assumes "fst (spolicy k v c) = 0"
  shows "scope_dev k c = scope_dev k v"
proof -
  have a: "map_option st_dev (fst (k_fstat k c)) = scope_dev k c" by (rule k_fstat_dev)
  have b: "map_option st_dev (fst (k_fstat (snd (k_fstat k c)) v)) = scope_dev k v"
    by (simp add: k_fstat_dev)
  from assms a b show ?thesis
    by (auto simp: spolicy_def split_beta EPERM_def split: option.splits if_splits)
qed

lemma schdirparent_finish_proj [simp]:
  "mlog (schdirparent_finish k e s h od d) = mlog k"
  "nodes (schdirparent_finish k e s h od d) = nodes k"
  "cwd_dev (schdirparent_finish k e s h od d) = cwd_dev k"
  by (simp_all add: schdirparent_finish_def Let_def)

lemma schdirparent_frame [simp]:
  "mlog (snd (schdirparent k v pp ho hc)) = mlog k"
  "nodes (snd (schdirparent k v pp ho hc)) = nodes k"
  by (simp_all add: schdirparent_def Let_def split_beta split: option.splits)

lemma RESTOREDIR_frame [simp]:
  "mlog (RESTOREDIR k s) = mlog k" "nodes (RESTOREDIR k s) = nodes k"
  by (simp_all add: RESTOREDIR_def restoredir_def Let_def split_beta)

lemma RESTOREDIR_keeps:
  assumes "s \<noteq> -1 \<Longrightarrow> s \<noteq> y"
  shows "is_open (RESTOREDIR k s) y = is_open k y"
    and "scope_dev (RESTOREDIR k s) y = scope_dev k y"
    and "pdev_of (RESTOREDIR k s) y = pdev_of k y"
  using assms by (simp_all add: RESTOREDIR_def restoredir_def Let_def split_beta k_close_keeps)

lemma schdirparent_keeps:
  assumes "is_open k y"
  shows "is_open (snd (schdirparent k v pp ho hc)) y"
    and "scope_dev (snd (schdirparent k v pp ho hc)) y = scope_dev k y"
    and "pdev_of (snd (schdirparent k v pp ho hc)) y = pdev_of k y"
  using assms
  by (simp_all add: schdirparent_def schdirparent_finish_def Let_def split_beta
      k_open_keeps k_close_keeps new_fd_not_open split: option.splits)

lemma schdirparent_savedir:
  assumes "is_open k y"
  shows "fst (snd (fst (schdirparent k v pp ho hc))) = -1
         \<or> fst (snd (fst (schdirparent k v pp ho hc))) \<noteq> y"
  using assms
  by (cases pp) (simp_all add: schdirparent_def Let_def split_beta
      k_open_keeps new_fd_not_open)

lemma schdirparent_result:
  "fst (fst (schdirparent k v pp ho hc)) = 0 \<or> fst (fst (schdirparent k v pp ho hc)) = -1"
  by (simp add: schdirparent_def Let_def split_beta k_fchdir_def kfail_def
      split: option.splits)

lemma schdirparent_cwd_dev:
  assumes "scope_dev k v = Some d" "fst (fst (schdirparent k v (Some p) ho hc)) = 0"
  shows "cwd_dev (snd (schdirparent k v (Some p) ho hc)) = d"
    and "open_dev k (dirname p) = Some d"
proof -
  let ?k1 = "snd (k_open k (dirname p) O_RDONLY 0)"
  let ?dirfd = "fst (k_open k (dirname p) O_RDONLY 0)"
  let ?k2 = "snd (spolicy ?k1 v ?dirfd)"
  let ?k3 = "snd (if ho then k_open ?k2 ''.'' O_RDONLY 0 else (-1, ?k2))"
  let ?k4 = "snd (k_fchdir ?k3 ?dirfd)"
  have ov: "is_open k v" using assms(1) by (rule scope_dev_is_open)
  from assms(2) have d: "?dirfd \<noteq> -1" and pol: "fst (spolicy ?k1 v ?dirfd) = 0"
    and ch: "fst (k_fchdir ?k3 ?dirfd) = 0"
    and c: "cwd_dev (snd (schdirparent k v (Some p) ho hc)) = cwd_dev ?k4"
    by (auto simp: schdirparent_def Let_def split_beta split: if_splits)
  have od: "is_open ?k1 ?dirfd" using d by (rule k_open_new_is_open)
  have "scope_dev ?k1 ?dirfd = open_dev k (dirname p)" using d by (rule k_open_readonly_dev)
  moreover have "scope_dev ?k1 ?dirfd = scope_dev ?k1 v" using pol by (rule spolicy_0)
  moreover have "scope_dev ?k1 v = Some d" using ov assms(1) by (simp add: k_open_keeps)
  ultimately have sd: "scope_dev ?k1 ?dirfd = Some d" and o: "open_dev k (dirname p) = Some d"
    by simp_all
  have "is_open ?k2 ?dirfd" using od by simp
  then have "scope_dev ?k3 ?dirfd = scope_dev ?k2 ?dirfd" by (simp add: k_open_keeps)
  then have "scope_dev ?k3 ?dirfd = Some d" using sd by simp
  moreover have "scope_dev ?k3 ?dirfd = Some (cwd_dev ?k4)" using ch by (rule k_fchdir_dev)
  ultimately show "cwd_dev (snd (schdirparent k v (Some p) ho hc)) = d" using c by simp
  show "open_dev k (dirname p) = Some d" by (rule o)
qed

lemma RESTOREDIR_keeps_disj:
  assumes "s = -1 \<or> s \<noteq> y"
  shows "is_open (RESTOREDIR k s) y = is_open k y"
    and "scope_dev (RESTOREDIR k s) y = scope_dev k y"
    and "pdev_of (RESTOREDIR k s) y = pdev_of k y"
  using assms by (auto simp: RESTOREDIR_keeps)

lemma RESTOREDIR_pdev_weak:
  "pdev_of (RESTOREDIR k s) y = None \<or> pdev_of (RESTOREDIR k s) y = pdev_of k y"
proof -
  have "fd_lookup (snd (k_fchdir k s)) y = fd_lookup k y" by (simp add: fd_lookup_def)
  then show ?thesis
    by (simp add: RESTOREDIR_def restoredir_def Let_def split_beta pdev_of_def
        k_close_fd_lookup)
qed

lemma k_open_nocreat:
  assumes "fl AND O_CREAT = 0"
  shows "mlog (snd (k_open k p fl m)) = mlog k" and "nodes (snd (k_open k p fl m)) = nodes k"
  using assms
  by (simp_all add: k_open_def Let_def alloc_fd_def kfail_def split: option.splits)

lemma smkdir_keeps:
  assumes "is_open k y"
  shows "is_open (snd (smkdir k v p m)) y"
    and "scope_dev (snd (smkdir k v p m)) y = scope_dev k y"
    and "pdev_of (snd (smkdir k v p m)) y = pdev_of k y"
proof -
  note sv = schdirparent_savedir [OF assms, of v "Some p" True True]
  note rk = RESTOREDIR_keeps_disj [OF sv]
  show "is_open (snd (smkdir k v p m)) y"
    and "scope_dev (snd (smkdir k v p m)) y = scope_dev k y"
    and "pdev_of (snd (smkdir k v p m)) y = pdev_of k y"
    using assms by (simp_all add: smkdir_def Let_def split_beta rk schdirparent_keeps)
qed

lemma smkdir_confined:
  assumes "scope_dev k v = Some d"
  shows "extends_within (in_dev d) (mlog k) (mlog (snd (smkdir k v p m)))"
proof (cases "fst (fst (schdirparent k v (Some p) True True)) = 0")
  case False
  then show ?thesis by (simp add: smkdir_def Let_def split_beta)
next
  case True
  let ?k1 = "snd (schdirparent k v (Some p) True True)"
  have "cwd_dev ?k1 = d" using assms True by (rule schdirparent_cwd_dev)
  with parent_dev_basename [of ?k1 p]
  have "parent_dev ?k1 (basename p) = None \<or> parent_dev ?k1 (basename p) = Some d" by simp
  then have "extends_within (in_dev d) (mlog ?k1) (mlog (snd (k_mkdir ?k1 (basename p) m)))"
    by (rule k_mkdir_mlog)
  then show ?thesis
    using True by (simp add: smkdir_def Let_def split_beta schdirparent_child)
qed

lemma smkdir_refused:
  assumes "scope_dev k v = Some d" "open_dev k (dirname p) \<noteq> Some d"
  shows "fst (smkdir k v p m) = -1" and "mlog (snd (smkdir k v p m)) = mlog k"
    and "nodes (snd (smkdir k v p m)) = nodes k"
proof -
  have "fst (fst (schdirparent k v (Some p) True True)) \<noteq> 0"
    using schdirparent_cwd_dev(2) [OF assms(1), of p True True] assms(2) by blast
  then show "fst (smkdir k v p m) = -1" and "mlog (snd (smkdir k v p m)) = mlog k"
    and "nodes (snd (smkdir k v p m)) = nodes k"
    by (simp_all add: smkdir_def Let_def split_beta)
qed

lemma srmdir_keeps:
  assumes "is_open k y"
  shows "is_open (snd (srmdir k v p)) y"
    and "scope_dev (snd (srmdir k v p)) y = scope_dev k y"
    and "pdev_of (snd (srmdir k v p)) y = pdev_of k y"
proof -
  note sv = schdirparent_savedir [OF assms, of v "Some p" True True]
  note rk = RESTOREDIR_keeps_disj [OF sv]
  show "is_open (snd (srmdir k v p)) y"
    and "scope_dev (snd (srmdir k v p)) y = scope_dev k y"
    and "pdev_of (snd (srmdir k v p)) y = pdev_of k y"
    using assms by (simp_all add: srmdir_def Let_def split_beta rk schdirparent_keeps)
qed

lemma srmdir_confined:
  assumes "scope_dev k v = Some d"
  shows "extends_within (in_dev d) (mlog k) (mlog (snd (srmdir k v p)))"
proof (cases "fst (fst (schdirparent k v (Some p) True True)) = 0")
  case False
  then show ?thesis by (simp add: srmdir_def Let_def split_beta)
next
  case True
  let ?k1 = "snd (schdirparent k v (Some p) True True)"
  have "cwd_dev ?k1 = d" using assms True by (rule schdirparent_cwd_dev)
  with parent_dev_basename [of ?k1 p]
  have "parent_dev ?k1 (basename p) = None \<or> parent_dev ?k1 (basename p) = Some d" by simp
  then have "extends_within (in_dev d) (mlog ?k1) (mlog (snd (k_rmdir ?k1 (basename p))))"
    by (rule k_rmdir_mlog)
  then show ?thesis
    using True by (simp add: srmdir_def Let_def split_beta schdirparent_child)
qed

lemma srmdir_refused:
  assumes "scope_dev k v = Some d" "open_dev k (dirname p) \<noteq> Some d"
  shows "fst (srmdir k v p) = -1" and "mlog (snd (srmdir k v p)) = mlog k"
    and "nodes (snd (srmdir k v p)) = nodes k"
proof -
  have "fst (fst (schdirparent k v (Some p) True True)) \<noteq> 0"
    using schdirparent_cwd_dev(2) [OF assms(1), of p True True] assms(2) by blast
  then show "fst (srmdir k v p) = -1" and "mlog (snd (srmdir k v p)) = mlog k"
    and "nodes (snd (srmdir k v p)) = nodes k"
    by (simp_all add: srmdir_def Let_def split_beta)
qed

lemma sunlink_keeps:
  assumes "is_open k y"
  shows "is_open (snd (sunlink k v p)) y"
    and "scope_dev (snd (sunlink k v p)) y = scope_dev k y"
    and "pdev_of (snd (sunlink k v p)) y = pdev_of k y"
proof -
  note sv = schdirparent_savedir [OF assms, of v "Some p" True True]
  note rk = RESTOREDIR_keeps_disj [OF sv]
  show "is_open (snd (sunlink k v p)) y"
    and "scope_dev (snd (sunlink k v p)) y = scope_dev k y"
    and "pdev_of (snd (sunlink k v p)) y = pdev_of k y"
    using assms by (simp_all add: sunlink_def Let_def split_beta rk schdirparent_keeps)
qed

lemma sunlink_confined:
  assumes "scope_dev k v = Some d"
  shows "extends_within (in_dev d) (mlog k) (mlog (snd (sunlink k v p)))"
proof (cases "fst (fst (schdirparent k v (Some p) True True)) = 0")
  case False
  then show ?thesis by (simp add: sunlink_def Let_def split_beta)
next
  case True
  let ?k1 = "snd (schdirparent k v (Some p) True True)"
  have "cwd_dev ?k1 = d" using assms True by (rule schdirparent_cwd_dev)
  with parent_dev_basename [of ?k1 p]
  have "parent_dev ?k1 (basename p) = None \<or> parent_dev ?k1 (basename p) = Some d" by simp
  then have "extends_within (in_dev d) (mlog ?k1) (mlog (snd (k_unlink ?k1 (basename p))))"
    by (rule k_unlink_mlog)
  then show ?thesis
    using True by (simp add: sunlink_def Let_def split_beta schdirparent_child)
qed

lemma sunlink_refused:
  assumes "scope_dev k v = Some d" "open_dev k (dirname p) \<noteq> Some d"
  shows "fst (sunlink k v p) = -1" and "mlog (snd (sunlink k v p)) = mlog k"
    and "nodes (snd (sunlink k v p)) = nodes k"
proof -
  have "fst (fst (schdirparent k v (Some p) True True)) \<noteq> 0"
    using schdirparent_cwd_dev(2) [OF assms(1), of p True True] assms(2) by blast
  then show "fst (sunlink k v p) = -1" and "mlog (snd (sunlink k v p)) = mlog k"
    and "nodes (snd (sunlink k v p)) = nodes k"
    by (simp_all add: sunlink_def Let_def split_beta)
qed

lemma srename_keeps:
  assumes "is_open k y"
  shows "is_open (snd (srename k v p q)) y"
    and "scope_dev (snd (srename k v p q)) y = scope_dev k y"
    and "pdev_of (snd (srename k v p q)) y = pdev_of k y"
proof -
  note sv = schdirparent_savedir [OF assms, of v "Some p" True True]
  note rk = RESTOREDIR_keeps_disj [OF sv]
  show "is_open (snd (srename k v p q)) y"
    and "scope_dev (snd (srename k v p q)) y = scope_dev k y"
    and "pdev_of (snd (srename k v p q)) y = pdev_of k y"
    using assms by (simp_all add: srename_def Let_def split_beta rk schdirparent_keeps)
qed

lemma srename_confined:
  assumes "scope_dev k v = Some d"
  shows "extends_within (in_dev d) (mlog k) (mlog (snd (srename k v p q)))"
proof (cases "fst (fst (schdirparent k v (Some p) True True)) = 0")
  case False
  then show ?thesis by (simp add: srename_def Let_def split_beta)
next
  case True
  let ?k1 = "snd (schdirparent k v (Some p) True True)"
  have "cwd_dev ?k1 = d" using assms True by (rule schdirparent_cwd_dev)
  with parent_dev_basename [of ?k1 p]
  have "parent_dev ?k1 (basename p) = None \<or> parent_dev ?k1 (basename p) = Some d" by simp
  then have "extends_within (in_dev d) (mlog ?k1)
               (mlog (snd (k_rename ?k1 (basename p) (basename q))))"
    by (rule k_rename_mlog)
  then show ?thesis
    using True by (simp add: srename_def Let_def split_beta schdirparent_child)
qed

lemma srename_refused:
  assumes "scope_dev k v = Some d" "open_dev k (dirname p) \<noteq> Some d"
  shows "fst (srename k v p q) = -1" and "mlog (snd (srename k v p q)) = mlog k"
    and "nodes (snd (srename k v p q)) = nodes k"
proof -
  have "fst (fst (schdirparent k v (Some p) True True)) \<noteq> 0"
    using schdirparent_cwd_dev(2) [OF assms(1), of p True True] assms(2) by blast
  then show "fst (srename k v p q) = -1" and "mlog (snd (srename k v p q)) = mlog k"
    and "nodes (snd (srename k v p q)) = nodes k"
    by (simp_all add: srename_def Let_def split_beta)
qed

lemma sopen_keeps:
  assumes "is_open k y"
  shows "is_open (snd (sopen k v p fl m)) y"
    and "scope_dev (snd (sopen k v p fl m)) y = scope_dev k y"
    and "pdev_of (snd (sopen k v p fl m)) y = pdev_of k y"
proof -
  note sv = schdirparent_savedir [OF assms, of v "Some p" True True]
  note rk = RESTOREDIR_keeps_disj [OF sv]
  show "is_open (snd (sopen k v p fl m)) y"
    and "scope_dev (snd (sopen k v p fl m)) y = scope_dev k y"
    and "pdev_of (snd (sopen k v p fl m)) y = pdev_of k y"
    using assms
    by (simp_all add: sopen_def Let_def split_beta rk schdirparent_keeps k_open_keeps)
qed

lemma sopen_confined:
  assumes "scope_dev k v = Some d"
  shows "extends_within (in_dev d) (mlog k) (mlog (snd (sopen k v p fl m)))"
proof (cases "fst (fst (schdirparent k v (Some p) True True)) = 0")
  case False
  then show ?thesis by (simp add: sopen_def Let_def split_beta)
next
  case True
  let ?k1 = "snd (schdirparent k v (Some p) True True)"
  have "cwd_dev ?k1 = d" using assms True by (rule schdirparent_cwd_dev)
  with parent_dev_basename [of ?k1 p]
  have pd: "parent_dev ?k1 (basename p) = None \<or> parent_dev ?k1 (basename p) = Some d"
    by simp
  have "extends_within (in_dev d) (mlog ?k1) (mlog (snd (k_open ?k1 (basename p) fl' m)))"
    for fl' using pd by (rule k_open_mlog)
  then show ?thesis
    using True by (simp add: sopen_def Let_def split_beta schdirparent_child)
qed

lemma sopen_refused:
  assumes "scope_dev k v = Some d" "open_dev k (dirname p) \<noteq> Some d"
  shows "fst (sopen k v p fl m) = -1" and "mlog (snd (sopen k v p fl m)) = mlog k"
    and "nodes (snd (sopen k v p fl m)) = nodes k"
proof -
  have "fst (fst (schdirparent k v (Some p) True True)) \<noteq> 0"
    using schdirparent_cwd_dev(2) [OF assms(1), of p True True] assms(2) by blast
  then show "fst (sopen k v p fl m) = -1" and "mlog (snd (sopen k v p fl m)) = mlog k"
    and "nodes (snd (sopen k v p fl m)) = nodes k"
    by (simp_all add: sopen_def Let_def split_beta)
qed

lemma sopen_nocreat:
  assumes "fl AND O_CREAT = 0"
  shows "mlog (snd (sopen k v p fl m)) = mlog k"
  using assms by (simp add: sopen_def Let_def split_beta k_open_nocreat)

lemma sopen_creat_pdev:
  assumes "scope_dev k v = Some d" "fl AND O_CREAT \<noteq> 0" "fst (sopen k v p fl m) \<noteq> -1"
  shows "pdev_of (snd (sopen k v p fl m)) (fst (sopen k v p fl m)) = None
         \<or> pdev_of (snd (sopen k v p fl m)) (fst (sopen k v p fl m)) = Some d"
proof -
  let ?R = "schdirparent k v (Some p) True True"
  let ?k1 = "snd ?R"
  let ?o = "k_open ?k1 (basename p) (fl OR O_EXCL) m"
  from assms(3) have ok: "fst (fst ?R) = 0"
    by (auto simp: sopen_def Let_def split_beta split: if_splits)
  then have r: "sopen k v p fl m = (fst ?o, RESTOREDIR (snd ?o) (fst (snd (fst ?R))))"
    using assms(2) by (simp add: sopen_def Let_def split_beta schdirparent_child)
  with assms(3) have o: "fst ?o \<noteq> -1" by simp
  have "(fl OR O_EXCL) AND O_CREAT = (fl AND O_CREAT) OR (O_EXCL AND O_CREAT)"
    by (rule word_ao_dist)
  then have e1: "(fl OR O_EXCL) AND O_CREAT \<noteq> 0"
    using assms(2) by (simp add: or_eq_0_iff)
  have "(fl OR O_EXCL) AND O_EXCL = O_EXCL"
    by (simp add: word_bw_comms word_ao_absorbs)
  then have e2: "(fl OR O_EXCL) AND O_EXCL \<noteq> 0"
    by (simp add: O_EXCL_def)
  note e = e1 e2
  have "pdev_of (snd ?o) (fst ?o) = parent_dev ?k1 (basename p)"
    using e o by (rule k_open_excl_pdev)
  moreover have "cwd_dev ?k1 = d" using assms(1) ok by (rule schdirparent_cwd_dev)
  ultimately have "pdev_of (snd ?o) (fst ?o) = None \<or> pdev_of (snd ?o) (fst ?o) = Some d"
    using parent_dev_basename [of ?k1 p] by simp
  with RESTOREDIR_pdev_weak [of "snd ?o" "fst (snd (fst ?R))" "fst ?o"] show ?thesis
    by (auto simp: r)
qed

lemma stays_on_refl [simp]: "stays_on d k k"
  by (simp add: stays_on_def)

lemma stays_on_trans:
  assumes a: "stays_on d k k'" and b: "stays_on d k' k''"
  shows "stays_on d k k''"
proof -
  from a have e1: "extends_within (in_dev d) (mlog k) (mlog k')" by (simp add: stays_on_def)
  from b have e2: "extends_within (in_dev d) (mlog k') (mlog k'')" by (simp add: stays_on_def)
  have e: "extends_within (in_dev d) (mlog k) (mlog k'')"
    using e1 e2 by (rule extends_within_trans)
  have o: "is_open k'' y \<and> scope_dev k'' y = scope_dev k y \<and> pdev_of k'' y = pdev_of k y"
    if y: "is_open k y" for y
  proof -
    from a y have 1: "is_open k' y" "scope_dev k' y = scope_dev k y" "pdev_of k' y = pdev_of k y"
      by (simp_all add: stays_on_def)
    from b 1(1) have 2: "is_open k'' y" "scope_dev k'' y = scope_dev k' y"
      "pdev_of k'' y = pdev_of k' y"
      by (simp_all add: stays_on_def)
    from 1 2 show ?thesis by simp
  qed
  show ?thesis by (simp add: stays_on_def e o)
qed

lemma stays_on_same:
  assumes "mlog k' = mlog k" "fds k' = fds k"
  shows "stays_on d k k'"
proof -
  note f = same_fds [OF assms(2)]
  show ?thesis unfolding stays_on_def by (simp only: assms(1) f extends_within_refl simp_thms)
qed

lemma stays_on_scope:
  assumes "stays_on d k k'" "scope_dev k v = Some e"
  shows "scope_dev k' v = Some e"
proof -
  have "is_open k v" using assms(2) by (rule scope_dev_is_open)
  with assms show ?thesis by (simp add: stays_on_def)
qed

lemma stays_on_mlog: "stays_on d k k' \<Longrightarrow> extends_within (in_dev d) (mlog k) (mlog k')"
  by (simp add: stays_on_def)

lemma smkdir_stays: "scope_dev k v = Some d \<Longrightarrow> stays_on d k (snd (smkdir k v p m))"
  by (simp add: stays_on_def smkdir_confined smkdir_keeps)

lemma srmdir_stays: "scope_dev k v = Some d \<Longrightarrow> stays_on d k (snd (srmdir k v p))"
  by (simp add: stays_on_def srmdir_confined srmdir_keeps)

lemma sunlink_stays: "scope_dev k v = Some d \<Longrightarrow> stays_on d k (snd (sunlink k v p))"
  by (simp add: stays_on_def sunlink_confined sunlink_keeps)

lemma sopen_stays: "scope_dev k v = Some d \<Longrightarrow> stays_on d k (snd (sopen k v p fl m))"
  by (simp add: stays_on_def sopen_confined sopen_keeps)

lemma sopen_nocreat_stays:
  "fl AND O_CREAT = 0 \<Longrightarrow> stays_on d k (snd (sopen k v p fl m))"
  by (simp add: stays_on_def sopen_nocreat sopen_keeps)

lemma sdeepunlink_entry_stays:
  assumes "scope_dev k v = Some d"
  shows "stays_on d k (snd (sdeepunlink_entry k v fent))"
  using assms
  by (simp add: sdeepunlink_entry_def srmdir_stays sunlink_stays split: fts_info.splits)

lemma fts_chdir_stays: "stays_on d k (fts_chdir k c)"
  by (rule stays_on_same) simp_all

lemma sdeepunlink_loop_stays:
  assumes "scope_dev k v = Some d"
  shows "stays_on d k (snd (sdeepunlink_loop k v rval fents))"
  using assms
proof (induction fents arbitrary: k rval)
  case Nil
  then show ?case by simp
next
  case (Cons fent fents)
  let ?k0 = "fts_chdir k (fts_curdir fent)"
  let ?k1 = "snd (sdeepunlink_entry ?k0 v fent)"
  have s0: "scope_dev ?k0 v = Some d" using Cons.prems by simp
  have a: "stays_on d k ?k0" by (rule fts_chdir_stays)
  have b: "stays_on d ?k0 ?k1" using s0 by (rule sdeepunlink_entry_stays)
  have s1: "scope_dev ?k1 v = Some d" using b s0 by (rule stays_on_scope)
  have c: "stays_on d ?k1 (snd (sdeepunlink_loop ?k1 v
             (rval OR fst (sdeepunlink_entry ?k0 v fent)) fents))"
    using s1 by (rule Cons.IH)
  have "stays_on d k (snd (sdeepunlink_loop ?k1 v
             (rval OR fst (sdeepunlink_entry ?k0 v fent)) fents))"
    using stays_on_trans [OF a b] c by (rule stays_on_trans)
  then show ?case by (simp add: split_beta)
qed

lemma sdeepunlink_confined:
  assumes "scope_dev k v = Some d"
  shows "extends_within (in_dev d) (mlog k) (mlog (snd (sdeepunlink fts k v p)))"
proof (cases fts)
  case None
  then show ?thesis by (simp add: sdeepunlink_def)
next
  case (Some a)
  obtain fents e where a: "a = (fents, e)" by (cases a)
  have "extends_within (in_dev d) (mlog k) (mlog (snd (sdeepunlink_loop k v 0 fents)))"
    using sdeepunlink_loop_stays [OF assms] by (rule stays_on_mlog)
  moreover have "mlog (snd (sdeepunlink fts k v p)) = mlog (snd (sdeepunlink_loop k v 0 fents))"
    by (simp add: sdeepunlink_def Some a split_beta Let_def)
  ultimately show ?thesis by simp
qed

lemma sdeepmkdir_stays:
  assumes "scope_dev k v = Some d" "sdeepmkdir n k v p m = Some (r, k')"
  shows "stays_on d k k'"
  using assms
proof (induction n arbitrary: k p r k')
  case 0
  then show ?case by simp
next
  case (Suc n)
  let ?k1 = "snd (k_stat k p)"
  have a: "stays_on d k ?k1" by (rule stays_on_same) simp_all
  have s1: "scope_dev ?k1 v = Some d" using Suc.prems(1) by simp
  show ?case
  proof (cases "length p = 0 \<or> fst (k_stat k p) \<noteq> None \<or> errno ?k1 \<noteq> ENOENT
                \<or> length (dirname p) \<ge> PATH_MAX")
    case True
    with Suc.prems(2) have "k' = ?k1 \<or> k' = k"
      by (auto simp: split_beta split: option.splits if_splits)
    with a show ?thesis by auto
  next
    case False
    then obtain b k2 where rec: "sdeepmkdir n ?k1 v (dirname p) m = Some (b, k2)"
      using Suc.prems(2) by (auto simp: split_beta split: option.splits if_splits)
    have b: "stays_on d ?k1 k2" using s1 rec by (rule Suc.IH)
    have s2: "scope_dev k2 v = Some d" using b s1 by (rule stays_on_scope)
    have c: "stays_on d k2 (snd (smkdir k2 v p m))" using s2 by (rule smkdir_stays)
    from False rec Suc.prems(2) have "k' = k2 \<or> k' = snd (smkdir k2 v p m)"
      by (auto simp: split_beta split: option.splits if_splits)
    with a b c show ?thesis by (blast intro: stays_on_trans)
  qed
qed

declare copy_loop.simps [simp del]

lemma copy_loop_unfold:
  "copy_loop k srcfd dstfd n =
     (if n > 0 then
        if fst (fst (k_read k srcfd (min n MAXBSIZE))) \<noteq> int (min n MAXBSIZE)
        then (False, snd (k_read k srcfd (min n MAXBSIZE)))
        else if fst (k_write (snd (k_read k srcfd (min n MAXBSIZE))) dstfd
                      (snd (fst (k_read k srcfd (min n MAXBSIZE))))) \<noteq> int (min n MAXBSIZE)
        then (False, snd (k_write (snd (k_read k srcfd (min n MAXBSIZE))) dstfd
                      (snd (fst (k_read k srcfd (min n MAXBSIZE))))))
        else copy_loop (snd (k_write (snd (k_read k srcfd (min n MAXBSIZE))) dstfd
                      (snd (fst (k_read k srcfd (min n MAXBSIZE)))))) srcfd dstfd
               (n - min n MAXBSIZE)
      else (True, k))"
  by (subst copy_loop.simps) (simp add: Let_def split_beta)

lemma copy_loop_mlog:
  assumes "pdev_of k dstfd = None \<or> pdev_of k dstfd = Some d"
  shows "extends_within (in_dev d) (mlog k) (mlog (snd (copy_loop k srcfd dstfd n)))"
  using assms
proof (induction n arbitrary: k rule: less_induct)
  case (less bytesLeft)
  let ?t = "min bytesLeft MAXBSIZE"
  let ?k1 = "snd (k_read k srcfd ?t)"
  let ?k2 = "snd (k_write ?k1 dstfd (snd (fst (k_read k srcfd ?t))))"
  note u = copy_loop_unfold [of k srcfd dstfd bytesLeft]
  have p1: "pdev_of ?k1 dstfd = None \<or> pdev_of ?k1 dstfd = Some d" using less.prems by simp
  have w: "extends_within (in_dev d) (mlog k) (mlog ?k2)"
    using k_write_mlog [OF p1] by simp
  have p2: "pdev_of ?k2 dstfd = None \<or> pdev_of ?k2 dstfd = Some d" using p1 by simp
  show ?case
  proof (cases "bytesLeft > 0 \<and> fst (fst (k_read k srcfd ?t)) = int ?t
                \<and> fst (k_write ?k1 dstfd (snd (fst (k_read k srcfd ?t)))) = int ?t")
    case True
    then have "bytesLeft - ?t < bytesLeft" by (simp add: MAXBSIZE_def)
    then have "extends_within (in_dev d) (mlog ?k2)
            (mlog (snd (copy_loop ?k2 srcfd dstfd (bytesLeft - ?t))))"
      using p2 by (rule less.IH)
    with w have "extends_within (in_dev d) (mlog k)
            (mlog (snd (copy_loop ?k2 srcfd dstfd (bytesLeft - ?t))))"
      by (rule extends_within_trans)
    moreover have "copy_loop k srcfd dstfd bytesLeft = copy_loop ?k2 srcfd dstfd (bytesLeft - ?t)"
      using True by (simp only: u simp_thms if_True if_False)
    ultimately show ?thesis by (simp only:)
  next
    case False
    have "snd (copy_loop k srcfd dstfd bytesLeft) = k
               \<or> snd (copy_loop k srcfd dstfd bytesLeft) = ?k1
               \<or> snd (copy_loop k srcfd dstfd bytesLeft) = ?k2"
    proof (cases "bytesLeft > 0")
      case a: False
      then show ?thesis by (simp only: u if_False snd_conv simp_thms)
    next
      case pos: True
      show ?thesis
      proof (cases "fst (fst (k_read k srcfd ?t)) = int ?t")
        case b: False
        with pos show ?thesis by (simp only: u if_True snd_conv simp_thms)
      next
        case rd: True
        with False pos
        have c: "fst (k_write ?k1 dstfd (snd (fst (k_read k srcfd ?t)))) \<noteq> int ?t"
          by (simp only: simp_thms not_False_eq_True)
        from pos rd c show ?thesis by (simp only: u if_True if_False snd_conv simp_thms)
      qed
    qed
    moreover have "extends_within (in_dev d) (mlog k) (mlog ?k1)" by simp
    ultimately show ?thesis using w by (elim disjE) (simp_all only: extends_within_refl)
  qed
qed

lemma copy_loop_pdev: "pdev_of (snd (copy_loop k srcfd dstfd n)) y = pdev_of k y"
proof (induction n arbitrary: k rule: less_induct)
  case (less bytesLeft)
  let ?t = "min bytesLeft MAXBSIZE"
  let ?k1 = "snd (k_read k srcfd ?t)"
  let ?k2 = "snd (k_write ?k1 dstfd (snd (fst (k_read k srcfd ?t))))"
  note u = copy_loop_unfold [of k srcfd dstfd bytesLeft]
  have p2: "pdev_of ?k2 y = pdev_of k y" "pdev_of ?k1 y = pdev_of k y" by simp_all
  show ?case
  proof (cases "bytesLeft > 0")
    case a: False
    then show ?thesis by (simp only: u if_False snd_conv simp_thms)
  next
    case pos: True
    show ?thesis
    proof (cases "fst (fst (k_read k srcfd ?t)) = int ?t")
      case b: False
      with pos p2 show ?thesis by (simp only: u if_True snd_conv simp_thms)
    next
      case rd: True
      show ?thesis
      proof (cases "fst (k_write ?k1 dstfd (snd (fst (k_read k srcfd ?t)))) = int ?t")
        case c: False
        with pos rd p2 show ?thesis by (simp only: u if_True if_False snd_conv simp_thms)
      next
        case wr: True
        from pos have "bytesLeft - ?t < bytesLeft" by (simp add: MAXBSIZE_def)
        then have "pdev_of (snd (copy_loop ?k2 srcfd dstfd (bytesLeft - ?t))) y = pdev_of ?k2 y"
          by (rule less.IH)
        moreover have "copy_loop k srcfd dstfd bytesLeft
                       = copy_loop ?k2 srcfd dstfd (bytesLeft - ?t)"
          using pos rd wr by (simp only: u simp_thms if_True if_False)
        ultimately show ?thesis using p2 by (simp only:)
      qed
    qed
  qed
qed

lemma scopyfile_finish_mlog [simp]: "mlog (scopyfile_finish k a b) = mlog k"
  by (simp add: scopyfile_finish_def Let_def)

lemma scopyfile_confined:
  assumes sc: "scope_dev k dv = Some d"
    and r: "scopyfile n k sv sp dv dp = Some (r, k')"
  shows "extends_within (in_dev d) (mlog k) (mlog k')"
proof -
  let ?A = "in_dev d"
  let ?k1 = "snd (sopen k sv sp O_RDONLY 0)"
  let ?srcfd = "fst (sopen k sv sp O_RDONLY 0)"
  let ?k2 = "snd (k_fstat ?k1 ?srcfd)"
  have ro: "O_RDONLY AND O_CREAT = 0" by (simp add: O_RDONLY_def)
  have a1: "stays_on d k ?k1" using ro by (rule sopen_nocreat_stays)
  have a2: "stays_on d ?k1 ?k2" by (rule stays_on_same) simp_all
  have a12: "stays_on d k ?k2" using a1 a2 by (rule stays_on_trans)
  have s2: "scope_dev ?k2 dv = Some d" using a12 sc by (rule stays_on_scope)
  have e1: "extends_within ?A (mlog k) (mlog ?k1)" using a1 by (rule stays_on_mlog)
  have e2: "extends_within ?A (mlog k) (mlog ?k2)" using a12 by (rule stays_on_mlog)
  show ?thesis
  proof (cases "?srcfd = -1 \<or> fst (k_fstat ?k1 ?srcfd) = None
                \<or> length (dirname dp) \<ge> PATH_MAX")
    case True
    with r have "mlog k' = mlog ?k1 \<or> mlog k' = mlog ?k2"
      by (auto simp: scopyfile_def Let_def split_beta split: option.splits if_splits)
    with e1 e2 show ?thesis by auto
  next
    case False
    then obtain srcsb where sb: "fst (k_fstat ?k1 ?srcfd) = Some srcsb" by auto
    from False r sb obtain mkerr k3
      where mk: "sdeepmkdir n ?k2 dv (dirname dp) (dirmode_of (st_mode srcsb)) = Some (mkerr, k3)"
      by (auto simp: scopyfile_def Let_def split_beta split: option.splits if_splits)
    let ?k4 = "snd (sunlink k3 dv dp)"
    let ?o = "sopen ?k4 dv dp (O_CREAT OR O_WRONLY) (st_mode srcsb OR S_IWUSR)"
    let ?k5 = "snd ?o"
    let ?dstfd = "fst ?o"
    let ?c = "copy_loop ?k5 ?srcfd ?dstfd (st_size srcsb)"
    let ?k6 = "snd ?c"
    let ?k7 = "snd (k_fchmod ?k6 ?dstfd (st_mode srcsb))"
    have a3: "stays_on d ?k2 k3" using s2 mk by (rule sdeepmkdir_stays)
    have s3: "scope_dev k3 dv = Some d" using a3 s2 by (rule stays_on_scope)
    have a4: "stays_on d k3 ?k4" using s3 by (rule sunlink_stays)
    have s4: "scope_dev ?k4 dv = Some d" using a4 s3 by (rule stays_on_scope)
    have a5: "stays_on d ?k4 ?k5" using s4 by (rule sopen_stays)
    have e3: "extends_within ?A (mlog k) (mlog k3)"
      using e2 stays_on_mlog [OF a3] by (rule extends_within_trans)
    have e4: "extends_within ?A (mlog k) (mlog ?k4)"
      using e3 stays_on_mlog [OF a4] by (rule extends_within_trans)
    have e5: "extends_within ?A (mlog k) (mlog ?k5)"
      using e4 stays_on_mlog [OF a5] by (rule extends_within_trans)
    have cr: "(O_CREAT OR O_WRONLY) AND O_CREAT \<noteq> 0"
      by (simp add: O_CREAT_def O_WRONLY_def)
    have rest: "extends_within ?A (mlog k) (mlog ?k6) \<and> extends_within ?A (mlog k) (mlog ?k7)"
      if ok: "?dstfd \<noteq> -1"
    proof -
      have p5: "pdev_of ?k5 ?dstfd = None \<or> pdev_of ?k5 ?dstfd = Some d"
        using s4 cr ok by (rule sopen_creat_pdev)
      then have c6: "extends_within ?A (mlog ?k5) (mlog ?k6)" by (rule copy_loop_mlog)
      have p6: "pdev_of ?k6 ?dstfd = None \<or> pdev_of ?k6 ?dstfd = Some d"
        using p5 by (simp add: copy_loop_pdev)
      then have c7: "extends_within ?A (mlog ?k6) (mlog ?k7)" by (rule k_fchmod_mlog)
      have e6: "extends_within ?A (mlog k) (mlog ?k6)"
        using e5 c6 by (rule extends_within_trans)
      have e7: "extends_within ?A (mlog k) (mlog ?k7)"
        using e6 c7 by (rule extends_within_trans)
      from e6 e7 show ?thesis by simp
    qed
    from False r sb mk
    have "mlog k' = mlog k3 \<or> mlog k' = mlog ?k5
          \<or> (?dstfd \<noteq> -1 \<and> (mlog k' = mlog ?k6 \<or> mlog k' = mlog ?k7))"
      by (auto simp: scopyfile_def Let_def split_beta split: if_splits)
    with e3 e5 rest show ?thesis by auto
  qed
qed

text \<open>
  The scope that the safe calls keep. Let the scope descriptor \<open>fdvol\<close> be open on
  device \<open>d\<close>. Every change that sopen, smkdir, srmdir, sunlink, srename, sdeepunlink,
  sdeepmkdir and scopyfile (for its destination) make to the file system is made in a
  directory on device \<open>d\<close>. When the
  directory that contains the target is not on device \<open>d\<close>, or cannot be opened, sopen,
  smkdir, srmdir, sunlink and srename return -1 and change nothing.
\<close>

theorem safecalls_change_only_the_scope_device:
  assumes "scope_dev k fdvol = Some d"
  shows "extends_within (in_dev d) (mlog k) (mlog (snd (sopen k fdvol p flags mode)))
       \<and> extends_within (in_dev d) (mlog k) (mlog (snd (smkdir k fdvol p mode)))
       \<and> extends_within (in_dev d) (mlog k) (mlog (snd (srmdir k fdvol p)))
       \<and> extends_within (in_dev d) (mlog k) (mlog (snd (sunlink k fdvol p)))
       \<and> extends_within (in_dev d) (mlog k) (mlog (snd (srename k fdvol p newpath)))
       \<and> extends_within (in_dev d) (mlog k) (mlog (snd (sdeepunlink fts k fdvol p)))
       \<and> (case sdeepmkdir n k fdvol p mode of
             None \<Rightarrow> True
           | Some (r, k') \<Rightarrow> extends_within (in_dev d) (mlog k) (mlog k'))
       \<and> (case scopyfile n k srcfdvol srcpath fdvol p of
             None \<Rightarrow> True
           | Some (r, k') \<Rightarrow> extends_within (in_dev d) (mlog k) (mlog k'))
       \<and> (open_dev k (dirname p) \<noteq> Some d \<longrightarrow>
             fst (sopen k fdvol p flags mode) = -1
             \<and> mlog (snd (sopen k fdvol p flags mode)) = mlog k
             \<and> nodes (snd (sopen k fdvol p flags mode)) = nodes k
             \<and> fst (smkdir k fdvol p mode) = -1
             \<and> mlog (snd (smkdir k fdvol p mode)) = mlog k
             \<and> nodes (snd (smkdir k fdvol p mode)) = nodes k
             \<and> fst (srmdir k fdvol p) = -1
             \<and> mlog (snd (srmdir k fdvol p)) = mlog k
             \<and> nodes (snd (srmdir k fdvol p)) = nodes k
             \<and> fst (sunlink k fdvol p) = -1
             \<and> mlog (snd (sunlink k fdvol p)) = mlog k
             \<and> nodes (snd (sunlink k fdvol p)) = nodes k
             \<and> fst (srename k fdvol p newpath) = -1
             \<and> mlog (snd (srename k fdvol p newpath)) = mlog k
             \<and> nodes (snd (srename k fdvol p newpath)) = nodes k)"
proof -
  have dm: "case sdeepmkdir n k fdvol p mode of
              None \<Rightarrow> True
            | Some (r, k') \<Rightarrow> extends_within (in_dev d) (mlog k) (mlog k')"
  proof (cases "sdeepmkdir n k fdvol p mode")
    case None
    then show ?thesis by simp
  next
    case (Some a)
    obtain r k' where a: "a = (r, k')" by (cases a)
    have "stays_on d k k'" using assms Some [unfolded a] by (rule sdeepmkdir_stays)
    then have "extends_within (in_dev d) (mlog k) (mlog k')" by (rule stays_on_mlog)
    then show ?thesis by (simp add: Some a)
  qed
  have cp: "case scopyfile n k srcfdvol srcpath fdvol p of
              None \<Rightarrow> True
            | Some (r, k') \<Rightarrow> extends_within (in_dev d) (mlog k) (mlog k')"
  proof (cases "scopyfile n k srcfdvol srcpath fdvol p")
    case None
    then show ?thesis by simp
  next
    case (Some a)
    obtain r k' where a: "a = (r, k')" by (cases a)
    have "extends_within (in_dev d) (mlog k) (mlog k')"
      using assms Some [unfolded a] by (rule scopyfile_confined)
    then show ?thesis by (simp add: Some a)
  qed
  have refused: "fst (sopen k fdvol p flags mode) = -1
             \<and> mlog (snd (sopen k fdvol p flags mode)) = mlog k
             \<and> nodes (snd (sopen k fdvol p flags mode)) = nodes k
             \<and> fst (smkdir k fdvol p mode) = -1
             \<and> mlog (snd (smkdir k fdvol p mode)) = mlog k
             \<and> nodes (snd (smkdir k fdvol p mode)) = nodes k
             \<and> fst (srmdir k fdvol p) = -1
             \<and> mlog (snd (srmdir k fdvol p)) = mlog k
             \<and> nodes (snd (srmdir k fdvol p)) = nodes k
             \<and> fst (sunlink k fdvol p) = -1
             \<and> mlog (snd (sunlink k fdvol p)) = mlog k
             \<and> nodes (snd (sunlink k fdvol p)) = nodes k
             \<and> fst (srename k fdvol p newpath) = -1
             \<and> mlog (snd (srename k fdvol p newpath)) = mlog k
             \<and> nodes (snd (srename k fdvol p newpath)) = nodes k"
    if o: "open_dev k (dirname p) \<noteq> Some d"
    by (intro conjI)
      (rule sopen_refused [OF assms o] smkdir_refused [OF assms o] srmdir_refused [OF assms o]
         sunlink_refused [OF assms o] srename_refused [OF assms o])+
  show ?thesis
    by (intro conjI impI sopen_confined smkdir_confined srmdir_confined sunlink_confined
        srename_confined sdeepunlink_confined assms dm cp refused)
qed

theorem safecalls_change_only_the_scope_device_witness:
  "scope_dev ex_k 4 = Some 2
   \<and> fst (smkdir ex_k 4 ''/Volumes/boot/new'' 0x1ED) = 0
   \<and> mlog (snd (smkdir ex_k 4 ''/Volumes/boot/new'' 0x1ED)) = [(OpMkdir, 2, ''/Volumes/boot/new'')]
   \<and> extends_within (in_dev 2) (mlog ex_k)
        (mlog (snd (smkdir ex_k 4 ''/Volumes/boot/new'' 0x1ED)))
   \<and> open_dev ex_k (dirname ''/Volumes/HD/new'') \<noteq> Some 2
   \<and> fst (smkdir ex_k 4 ''/Volumes/HD/new'' 0x1ED) = -1
   \<and> nodes (snd (smkdir ex_k 4 ''/Volumes/HD/new'' 0x1ED)) = nodes ex_k"
proof -
  have h: "scope_dev ex_k 4 = Some 2" by code_simp
  have r: "fst (smkdir ex_k 4 ''/Volumes/boot/new'' 0x1ED) = 0" by code_simp
  have m: "mlog (snd (smkdir ex_k 4 ''/Volumes/boot/new'' 0x1ED))
           = [(OpMkdir, 2, ''/Volumes/boot/new'')]" by code_simp
  have o: "open_dev ex_k (dirname ''/Volumes/HD/new'') \<noteq> Some 2" by code_simp
  note a = safecalls_change_only_the_scope_device [OF h,
      of "''/Volumes/boot/new''" 0 "0x1ED" "[]" None 0 0 "[]"]
  note b = safecalls_change_only_the_scope_device [OF h,
      of "''/Volumes/HD/new''" 0 "0x1ED" "[]" None 0 0 "[]"]
  from a have c: "extends_within (in_dev 2) (mlog ex_k)
        (mlog (snd (smkdir ex_k 4 ''/Volumes/boot/new'' 0x1ED)))" by blast
  from b o have f: "fst (smkdir ex_k 4 ''/Volumes/HD/new'' 0x1ED) = -1"
    "nodes (snd (smkdir ex_k 4 ''/Volumes/HD/new'' 0x1ED)) = nodes ex_k" by blast+
  from h r m c o f show ?thesis by blast
qed

subsection \<open>The error of a refused call\<close>

lemma k_open_errno:
  "fst (k_open k p fl m) \<noteq> -1 \<Longrightarrow> errno (snd (k_open k p fl m)) = errno k"
  by (auto simp: k_open_def Let_def alloc_fd_def kfail_def log_event_def put_node_def
      split: option.splits if_splits)

lemma k_open_readonly_succeeds:
  "open_dev k p = Some d \<Longrightarrow> fst (k_open k p O_RDONLY m) \<noteq> -1"
  using fresh_fd_not_minus1 [of k]
  by (auto simp: k_open_def Let_def alloc_fd_def kfail_def O_RDONLY_def accmode_def
      open_dev_def fresh_fd_def split: option.splits if_splits)

lemma k_fstat_errno: "is_open k x \<Longrightarrow> errno (snd (k_fstat k x)) = errno k"
  by (auto simp: k_fstat_def is_open_def split: option.splits)

lemma k_close_errno: "is_open k x \<Longrightarrow> errno (snd (k_close k x)) = errno k"
  by (auto simp: k_close_def is_open_def split: option.splits)

lemma spolicy_errno:
  "is_open k a \<Longrightarrow> is_open k b \<Longrightarrow> errno (snd (spolicy k a b)) = errno k"
  by (auto simp: spolicy_def split_beta k_fstat_errno k_fstat_def is_open_def
      split: option.splits)

lemma schdirparent_refusal:
  assumes sc: "scope_dev k v = Some d"
    and od: "open_dev k (dirname p) = Some d'" and ne: "d' \<noteq> d"
  shows "fst (schdirparent k v (Some p) ho hc) = (-1, -1, [])"
    and "errno (snd (schdirparent k v (Some p) ho hc)) = errno k"
proof -
  let ?o = "k_open k (dirname p) O_RDONLY 0"
  let ?k1 = "snd ?o" and ?dirfd = "fst ?o"
  let ?k2 = "snd (spolicy ?k1 v ?dirfd)"
  have ov: "is_open k v" using sc by (rule scope_dev_is_open)
  have d: "?dirfd \<noteq> -1" using od by (rule k_open_readonly_succeeds)
  have e1: "errno ?k1 = errno k" using d by (rule k_open_errno)
  have o1: "is_open ?k1 ?dirfd" using d by (rule k_open_new_is_open)
  have v1: "is_open ?k1 v" "scope_dev ?k1 v = Some d" using ov sc by (simp_all add: k_open_keeps)
  have "scope_dev ?k1 ?dirfd = Some d'" using k_open_readonly_dev [OF d] od by simp
  with v1(2) ne have pol: "fst (spolicy ?k1 v ?dirfd) \<noteq> 0"
    using spolicy_0 [of ?k1 v ?dirfd] by auto
  have e2: "errno ?k2 = errno k" using spolicy_errno [OF v1(1) o1] e1 by simp
  have o2: "is_open ?k2 ?dirfd" using o1 by simp
  have e3: "errno (snd (k_close ?k2 ?dirfd)) = errno k" using k_close_errno [OF o2] e2 by simp
  show "fst (schdirparent k v (Some p) ho hc) = (-1, -1, [])"
    using d pol by (simp add: schdirparent_def Let_def split_beta)
  show "errno (snd (schdirparent k v (Some p) ho hc)) = errno k"
    using d pol e3 by (simp add: schdirparent_def schdirparent_finish_def Let_def split_beta)
qed

lemma RESTOREDIR_none [simp]: "RESTOREDIR k (-1) = k"
  by (simp add: RESTOREDIR_def)

lemma refusal_errno:
  assumes "scope_dev k v = Some d" "open_dev k (dirname p) = Some d'" "d' \<noteq> d"
  shows "errno (snd (sopen k v p fl m)) = errno k"
    and "errno (snd (smkdir k v p m')) = errno k"
    and "errno (snd (srmdir k v p)) = errno k"
    and "errno (snd (sunlink k v p)) = errno k"
    and "errno (snd (srename k v p q)) = errno k"
  using schdirparent_refusal [OF assms, of True True]
  by (simp_all add: sopen_def smkdir_def srmdir_def sunlink_def srename_def Let_def split_beta)

text \<open>
  C5. A safe call whose target lies in a directory on another device than the scope
  descriptor is to fail with EPERM without changing anything. In the code spolicy returns
  EPERM, and schdirparent tests that value only for being non-zero and returns its own
  -1: sopen, smkdir, srmdir, sunlink and srename return -1, nothing is changed, and
  \<open>errno\<close> is left as it was before the call, so it is EPERM afterwards only if it
  was EPERM before.
\<close>

theorem safecalls_refusal_loses_EPERM:
  assumes "scope_dev k fdvol = Some d"
    and "open_dev k (dirname p) = Some d'" and "d' \<noteq> d"
  shows "fst (sopen k fdvol p flags mode) = -1
       \<and> errno (snd (sopen k fdvol p flags mode)) = errno k
       \<and> mlog (snd (sopen k fdvol p flags mode)) = mlog k
       \<and> nodes (snd (sopen k fdvol p flags mode)) = nodes k
       \<and> fst (smkdir k fdvol p mode) = -1
       \<and> errno (snd (smkdir k fdvol p mode)) = errno k
       \<and> mlog (snd (smkdir k fdvol p mode)) = mlog k
       \<and> nodes (snd (smkdir k fdvol p mode)) = nodes k
       \<and> fst (srmdir k fdvol p) = -1
       \<and> errno (snd (srmdir k fdvol p)) = errno k
       \<and> mlog (snd (srmdir k fdvol p)) = mlog k
       \<and> nodes (snd (srmdir k fdvol p)) = nodes k
       \<and> fst (sunlink k fdvol p) = -1
       \<and> errno (snd (sunlink k fdvol p)) = errno k
       \<and> mlog (snd (sunlink k fdvol p)) = mlog k
       \<and> nodes (snd (sunlink k fdvol p)) = nodes k
       \<and> fst (srename k fdvol p newpath) = -1
       \<and> errno (snd (srename k fdvol p newpath)) = errno k
       \<and> mlog (snd (srename k fdvol p newpath)) = mlog k
       \<and> nodes (snd (srename k fdvol p newpath)) = nodes k"
proof -
  from assms(2,3) have o: "open_dev k (dirname p) \<noteq> Some d" by simp
  show ?thesis
    by (intro conjI)
      (rule sopen_refused [OF assms(1) o] smkdir_refused [OF assms(1) o]
         srmdir_refused [OF assms(1) o] sunlink_refused [OF assms(1) o]
         srename_refused [OF assms(1) o] refusal_errno [OF assms])+
qed

theorem safecalls_refusal_loses_EPERM_witness:
  "scope_dev ex_k 3 = Some 1
   \<and> open_dev ex_k (dirname ''/Volumes/boot/new'') = Some 2
   \<and> errno ex_k = 0
   \<and> fst (smkdir ex_k 3 ''/Volumes/boot/new'' 0x1ED) = -1
   \<and> fst (smkdir ex_k 3 ''/Volumes/boot/new'' 0x1ED) \<noteq> EPERM
   \<and> errno (snd (smkdir ex_k 3 ''/Volumes/boot/new'' 0x1ED)) = 0
   \<and> errno (snd (smkdir ex_k 3 ''/Volumes/boot/new'' 0x1ED)) \<noteq> EPERM
   \<and> nodes (snd (smkdir ex_k 3 ''/Volumes/boot/new'' 0x1ED)) = nodes ex_k
   \<and> map_option (\<lambda>(r, k). (r, errno k, mlog k))
        (scopyfile 5 ex_k 3 ''/Volumes/HD/CS/boot.efi'' 3 ''/Volumes/boot/g'')
       = Some (-1, 0, [])"
proof -
  have 1: "scope_dev ex_k 3 = Some 1" by code_simp
  have 2: "open_dev ex_k (dirname ''/Volumes/boot/new'') = Some 2" by code_simp
  have 3: "(2::nat) \<noteq> 1" by simp
  have 4: "errno ex_k = 0" by code_simp
  have 5: "map_option (\<lambda>(r, k). (r, errno k, mlog k))
        (scopyfile 5 ex_k 3 ''/Volumes/HD/CS/boot.efi'' 3 ''/Volumes/boot/g'')
       = Some (-1, 0, [])" by code_simp
  note t = safecalls_refusal_loses_EPERM [OF 1 2 3, of 0 "0x1ED" "[]"]
  from t have a: "fst (smkdir ex_k 3 ''/Volumes/boot/new'' 0x1ED) = -1"
    and b: "errno (snd (smkdir ex_k 3 ''/Volumes/boot/new'' 0x1ED)) = errno ex_k"
    and c: "nodes (snd (smkdir ex_k 3 ''/Volumes/boot/new'' 0x1ED)) = nodes ex_k"
    by blast+
  from a have a': "fst (smkdir ex_k 3 ''/Volumes/boot/new'' 0x1ED) \<noteq> EPERM"
    by (simp add: EPERM_def)
  from b 4 have b': "errno (snd (smkdir ex_k 3 ''/Volumes/boot/new'' 0x1ED)) = 0"
    "errno (snd (smkdir ex_k 3 ''/Volumes/boot/new'' 0x1ED)) \<noteq> EPERM"
    by (simp_all add: EPERM_def)
  from 1 2 4 a a' b' c 5 show ?thesis by blast
qed

subsection \<open>activateBooters on a parsed cache\<close>

text \<open>
  The lemmas follow one safe open: the directory schdirparent changes into, the object the
  open of the base name reaches, and the inode number \<^verbatim>\<open>fstat\<close> then reports.
\<close>

lemma same_fds_lookup: "fds k' = fds k \<Longrightarrow> fd_lookup k' y = fd_lookup k y"
  by (simp add: fd_lookup_def)

lemma k_open_keeps_lookup:
  assumes "is_open k y"
  shows "fd_lookup (snd (k_open k p fl m)) y = fd_lookup k y"
proof -
  from assms have "y \<noteq> fresh_fd k" using fresh_fd_unused [of k] by (auto simp: is_open_def)
  then show ?thesis by (rule k_open_fd_lookup)
qed

lemma k_open_path:
  assumes "fst (k_open k p fl m) \<noteq> -1"
  shows "path_of (snd (k_open k p fl m)) (fst (k_open k p fl m)) = Some (resolve k p)"
proof -
  have dot: "resolve k ''.'' = cwd k" by (simp add: resolve_def)
  show ?thesis
    using assms
    by (auto simp: k_open_def Let_def alloc_fd_def kfail_def path_of_def log_event_def
        put_node_def fd_lookup_def dot split: option.splits if_splits)
qed

lemma k_fchdir_cwd:
  "fst (k_fchdir k x) = 0 \<Longrightarrow> path_of k x = Some (cwd (snd (k_fchdir k x)))"
  by (auto simp: k_fchdir_def path_of_def split: option.splits if_splits)

lemma k_fchdir_fails: "fst (k_fchdir k x) \<noteq> 0 \<Longrightarrow> cwd (snd (k_fchdir k x)) = cwd k"
  by (auto simp: k_fchdir_def split: option.splits if_splits)

lemma schdirparent_cwd:
  assumes "fst (fst (schdirparent k v (Some p) ho hc)) = 0"
  shows "cwd (snd (schdirparent k v (Some p) ho hc)) = resolve k (dirname p)"
proof -
  let ?k1 = "snd (k_open k (dirname p) O_RDONLY 0)"
  let ?dirfd = "fst (k_open k (dirname p) O_RDONLY 0)"
  let ?k2 = "snd (spolicy ?k1 v ?dirfd)"
  let ?k3 = "snd (if ho then k_open ?k2 ''.'' O_RDONLY 0 else (-1, ?k2))"
  let ?k4 = "snd (k_fchdir ?k3 ?dirfd)"
  from assms have d: "?dirfd \<noteq> -1"
    and ch: "fst (k_fchdir ?k3 ?dirfd) = 0"
    and c: "cwd (snd (schdirparent k v (Some p) ho hc)) = cwd ?k4"
    by (auto simp: schdirparent_def schdirparent_finish_def Let_def split_beta
        split: if_splits)
  have od: "is_open ?k1 ?dirfd" using d by (rule k_open_new_is_open)
  have p1: "path_of ?k1 ?dirfd = Some (resolve k (dirname p))" using d by (rule k_open_path)
  have "fd_lookup ?k2 ?dirfd = fd_lookup ?k1 ?dirfd" by (rule same_fds_lookup) simp
  moreover have "is_open ?k2 ?dirfd" using od by simp
  then have "fd_lookup ?k3 ?dirfd = fd_lookup ?k2 ?dirfd" by (simp add: k_open_keeps_lookup)
  ultimately have "path_of ?k3 ?dirfd = Some (resolve k (dirname p))"
    using p1 by (simp add: path_of_def)
  moreover have "path_of ?k3 ?dirfd = Some (cwd ?k4)" using ch by (rule k_fchdir_cwd)
  ultimately show ?thesis using c by simp
qed

lemma schdirparent_savedir_open:
  assumes "fst (fst (schdirparent k v (Some p) True hc)) = 0"
  shows "is_open (snd (schdirparent k v (Some p) True hc))
           (fst (snd (fst (schdirparent k v (Some p) True hc))))"
proof -
  let ?k1 = "snd (k_open k (dirname p) O_RDONLY 0)"
  let ?dirfd = "fst (k_open k (dirname p) O_RDONLY 0)"
  let ?k2 = "snd (spolicy ?k1 v ?dirfd)"
  let ?s = "k_open ?k2 ''.'' O_RDONLY 0"
  let ?k4 = "snd (k_fchdir (snd ?s) ?dirfd)"
  from assms have d: "?dirfd \<noteq> -1" and s: "fst ?s \<noteq> -1"
    and r: "snd (schdirparent k v (Some p) True hc) = snd (k_close ?k4 ?dirfd)"
    and sv: "fst (snd (fst (schdirparent k v (Some p) True hc))) = fst ?s"
    by (auto simp: schdirparent_def schdirparent_finish_def Let_def split_beta
        split: if_splits)
  have "is_open ?k1 ?dirfd" using d by (rule k_open_new_is_open)
  then have o2: "is_open ?k2 ?dirfd" by simp
  have ne: "?dirfd \<noteq> fst ?s" using new_fd_not_open [OF o2 s] by simp
  have "is_open (snd ?s) (fst ?s)" using s by (rule k_open_new_is_open)
  then have "is_open ?k4 (fst ?s)" by simp
  then have "is_open (snd (k_close ?k4 ?dirfd)) (fst ?s)" using ne by (simp add: k_close_keeps)
  then show ?thesis by (simp only: r sv)
qed

lemma resolve_cwd: "cwd k' = cwd k \<Longrightarrow> resolve k' p = resolve k p"
  by (simp add: resolve_def)

lemma RESTOREDIR_lookup: "s \<noteq> y \<Longrightarrow> fd_lookup (RESTOREDIR k s) y = fd_lookup k y"
proof -
  assume "s \<noteq> y"
  moreover have "fd_lookup (snd (k_fchdir k s)) y = fd_lookup k y" by (simp add: fd_lookup_def)
  ultimately show ?thesis
    by (simp add: RESTOREDIR_def restoredir_def Let_def split_beta k_close_fd_lookup)
qed

lemma readonly_no_creat [simp]: "O_RDONLY AND O_CREAT = 0"
  by (simp add: O_RDONLY_def)

lemma sopen_readonly_frame [simp]:
  "mlog (snd (sopen k v p O_RDONLY m)) = mlog k"
  "nodes (snd (sopen k v p O_RDONLY m)) = nodes k"
  by (simp_all add: sopen_def Let_def split_beta k_open_nocreat)

lemma sopen_readonly_olog:
  "extends_within {(q, f). f = O_RDONLY} (olog k) (olog (snd (sopen k v p O_RDONLY m)))"
proof -
  let ?A = "{(q, f). f = O_RDONLY}"
  have sp: "extends_within ?A (olog k) (olog (snd (schdirparent k v (Some p) True True)))"
    by (rule schdirparent_olog) simp
  show ?thesis
    using sp by (auto simp: sopen_def Let_def split_beta intro!: extends_within_snoc)
qed

lemma sopen_readonly_target:
  assumes "fst (sopen k v p O_RDONLY m) \<noteq> -1"
  shows "path_of (snd (sopen k v p O_RDONLY m)) (fst (sopen k v p O_RDONLY m))
           = Some (sopen_target k p)"
proof -
  let ?R = "schdirparent k v (Some p) True True"
  let ?k1 = "snd ?R" and ?s = "fst (snd (fst ?R))"
  let ?o = "k_open ?k1 (basename p) O_RDONLY m"
  from assms have ok: "fst (fst ?R) = 0"
    by (auto simp: sopen_def Let_def split_beta split: if_splits)
  then have r: "sopen k v p O_RDONLY m = (fst ?o, RESTOREDIR (snd ?o) ?s)"
    by (simp add: sopen_def Let_def split_beta schdirparent_child)
  with assms have o: "fst ?o \<noteq> -1" by simp
  have c: "cwd ?k1 = resolve k (dirname p)" using ok by (rule schdirparent_cwd)
  have "path_of (snd ?o) (fst ?o) = Some (resolve ?k1 (basename p))" using o by (rule k_open_path)
  moreover have "resolve ?k1 (basename p) = sopen_target k p"
    unfolding sopen_target_def by (rule resolve_cwd) (simp add: c)
  ultimately have p: "path_of (snd ?o) (fst ?o) = Some (sopen_target k p)" by simp
  have "is_open ?k1 ?s" using ok by (rule schdirparent_savedir_open)
  then have "fst ?o \<noteq> ?s" using o by (rule new_fd_not_open)
  then have "fd_lookup (RESTOREDIR (snd ?o) ?s) (fst ?o) = fd_lookup (snd ?o) (fst ?o)"
    by (intro RESTOREDIR_lookup) simp
  with p show ?thesis by (simp add: r path_of_def)
qed

lemma ino_of_nodes: "nodes k' = nodes k \<Longrightarrow> ino_of k' q = ino_of k q"
  by (simp add: ino_of_def lookup_def)

lemma k_fstat_ino:
  assumes "path_of k x = Some q"
  shows "map_option st_ino (fst (k_fstat k x)) = Some (ino_of k q)"
  using assms
  by (auto simp: k_fstat_def path_of_def ino_of_def new_inode_def split: option.splits)

lemma k_fullfsync_proj [simp]:
  "nodes (snd (k_fullfsync k x)) = nodes k" "fds (snd (k_fullfsync k x)) = fds k"
  "olog (snd (k_fullfsync k x)) = olog k"
  by (simp_all add: k_fullfsync_def kfail_def log_event_def split: option.splits)

lemma k_fullfsync_mlog:
  "fst (k_fullfsync k x) \<noteq> 0 \<Longrightarrow> mlog (snd (k_fullfsync k x)) = mlog k"
  "fst (k_fullfsync k x) = 0 \<Longrightarrow> path_of k x = Some q \<Longrightarrow>
     \<exists>d. mlog (snd (k_fullfsync k x)) = mlog k @ [(OpFullFsync, d, q)]"
  by (auto simp: k_fullfsync_def kfail_def log_event_def path_of_def split: option.splits)

lemmas k_fullfsync_keeps [simp] = same_fds [OF k_fullfsync_proj(2)]

lemma prefix_hd:
  assumes "rev (dropWhile Q (rev xs)) \<noteq> []"
  shows "hd (rev (dropWhile Q (rev xs))) = hd xs"
proof -
  have "rev (takeWhile Q (rev xs) @ dropWhile Q (rev xs))
          = rev (dropWhile Q (rev xs)) @ rev (takeWhile Q (rev xs))"
    by (rule rev_append)
  moreover have "takeWhile Q (rev xs) @ dropWhile Q (rev xs) = rev xs"
    by (rule takeWhile_dropWhile_id)
  ultimately have "rev (rev xs) = rev (dropWhile Q (rev xs)) @ rev (takeWhile Q (rev xs))"
    by (simp only:)
  then have "xs = rev (dropWhile Q (rev xs)) @ rev (takeWhile Q (rev xs))"
    by (simp only: rev_rev_ident)
  then have "hd xs = hd (rev (dropWhile Q (rev xs)) @ rev (takeWhile Q (rev xs)))"
    by (simp only:)
  also have "\<dots> = hd (rev (dropWhile Q (rev xs)))" using assms by (rule hd_append2)
  finally show ?thesis by (rule sym)
qed

lemma dirname_absolute:
  assumes "absolute p"
  shows "absolute (dirname p)"
proof (cases "strip_slashes p = []")
  case True
  with assms show ?thesis by (simp add: dirname_def absolute_def)
next
  case False
  define q where "q = strip_slashes p"
  define d where "d = rev (dropWhile (\<lambda>c. \<not> is_slash c) (rev q))"
  have q: "q \<noteq> []" using False by (simp add: q_def)
  have "hd q = hd p" using q unfolding q_def strip_slashes_def by (rule prefix_hd)
  then have hq: "hd q = CHR ''/''" using assms by (simp add: absolute_def)
  then have "is_slash (hd q)" by (simp add: is_slash_def)
  moreover have "hd q \<in> set (rev q)" using q by simp
  ultimately have "dropWhile (\<lambda>c. \<not> is_slash c) (rev q) \<noteq> []"
    by (auto simp: dropWhile_eq_Nil_conv)
  then have d: "d \<noteq> []" by (simp add: d_def)
  have hd: "hd d = CHR ''/''" using d hq unfolding d_def by (simp add: prefix_hd)
  have pne: "p \<noteq> []" using assms by (simp add: absolute_def)
  have dn: "dirname p = (if strip_slashes d = [] then ''/'' else strip_slashes d)"
    using pne False d unfolding d_def q_def dirname_def Let_def by (simp only: if_False)
  show ?thesis
  proof (cases "strip_slashes d = []")
    case True
    then show ?thesis by (simp add: dn absolute_def)
  next
    case f: False
    then have "hd (strip_slashes d) = hd d" unfolding strip_slashes_def by (rule prefix_hd)
    with f hd show ?thesis by (simp add: dn absolute_def)
  qed
qed

lemma resolve_absolute: "absolute p \<Longrightarrow> resolve k p = p"
  by (auto simp: resolve_def absolute_def)

lemma sopen_target_absolute:
  assumes "absolute p"
  shows "sopen_target k' p = sopen_target k p"
proof -
  have "absolute (dirname p)" using assms by (rule dirname_absolute)
  then have "resolve k' (dirname p) = resolve k (dirname p)" by (simp add: resolve_absolute)
  then show ?thesis unfolding sopen_target_def by (intro resolve_cwd) simp
qed

lemma sopen_fstat_ino:
  assumes o: "fst (sopen k v p O_RDONLY m) \<noteq> -1"
    and n: "nodes k' = nodes (snd (sopen k v p O_RDONLY m))"
    and f: "fds k' = fds (snd (sopen k v p O_RDONLY m))"
  shows "map_option st_ino (fst (k_fstat k' (fst (sopen k v p O_RDONLY m))))
           = Some (ino_of k (sopen_target k p))"
proof -
  have "path_of k' (fst (sopen k v p O_RDONLY m)) = Some (sopen_target k p)"
    using sopen_readonly_target [OF o] f by (simp add: path_of_def fd_lookup_def)
  then have "map_option st_ino (fst (k_fstat k' (fst (sopen k v p O_RDONLY m))))
               = Some (ino_of k' (sopen_target k p))"
    by (rule k_fstat_ino)
  moreover have "ino_of k' (sopen_target k p) = ino_of k (sopen_target k p)"
    by (rule ino_of_nodes) (simp add: n)
  ultimately show ?thesis by simp
qed

lemma activateBooters_efi_olog:
  "extends_within {(q, f). f = O_RDONLY} (olog k) (olog (snd (activateBooters_efi k up v0)))"
proof -
  let ?A = "{(q, f). f = O_RDONLY}"
  have s: "extends_within ?A (olog k0) (olog (snd (sopen k0 v p O_RDONLY 0)))" for k0 v p
    by (rule sopen_readonly_olog)
  have t: "extends_within ?A (olog k) (olog (snd (sopen k0 v p O_RDONLY 0)))"
    if "extends_within ?A (olog k) (olog k0)" for k0 v p
    using that s by (rule extends_within_trans)
  show ?thesis
    unfolding activateBooters_efi_def
    by (simp add: Let_def split_beta s t split: option.splits)
qed

lemma pathcpy_Some: "pathcpy p = Some q \<Longrightarrow> q = p"
  by (simp add: pathcpy_def split: if_splits)

lemma activateBooters_efi_result:
  assumes a: "absolute (efidst up)"
  shows "case activateBooters_efi k up v0 of
           (Inl x, k') \<Rightarrow>
              mlog k' = mlog k
              \<or> (\<exists>d. mlog k' = mlog k @ [(OpFullFsync, d, sopen_target k (efidst up))])
         | (Inr (w0, w1), k') \<Rightarrow>
              (\<exists>d. mlog k' = mlog k @ [(OpFullFsync, d, sopen_target k (efidst up))])
              \<and> w1 = of_nat (ino_of k (sopen_target k (efidst up)))
              \<and> w0 = (if v0 = 0 then of_nat (ino_of k (sopen_target k (dirname (efidst up))))
                       else v0)"
proof -
  let ?v = "curbootfd up" and ?p = "efidst up"
  let ?S1 = "sopen k ?v ?p O_RDONLY 0"
  let ?fd = "fst ?S1" and ?k1 = "snd ?S1"
  let ?k2 = "snd (k_fullfsync ?k1 ?fd)"
  let ?k3 = "snd (k_fstat ?k2 ?fd)"
  let ?k4 = "snd (k_close ?k3 ?fd)"
  let ?S2 = "sopen ?k4 ?v (dirname ?p) O_RDONLY 0"
  let ?pfd = "fst ?S2" and ?k5 = "snd ?S2"
  let ?k6 = "snd (k_fstat ?k5 ?pfd)"
  let ?q = "sopen_target k ?p"
  let ?FS = "\<lambda>l. \<exists>d. l = mlog k @ [(OpFullFsync, d, ?q)]"
  show ?thesis
  proof (cases "?fd = -1")
    case True
    then show ?thesis by (simp add: activateBooters_efi_def Let_def split_beta)
  next
    case fd: False
    have pq: "path_of ?k1 ?fd = Some ?q" using fd by (rule sopen_readonly_target)
    show ?thesis
    proof (cases "fst (k_fullfsync ?k1 ?fd) = 0")
      case False
      then have "mlog ?k2 = mlog k" by (simp add: k_fullfsync_mlog(1))
      with fd False show ?thesis by (simp add: activateBooters_efi_def Let_def split_beta)
    next
      case fs: True
      have m2: "?FS (mlog ?k2)" using k_fullfsync_mlog(2) [OF fs pq] by simp
      have i1: "map_option st_ino (fst (k_fstat ?k2 ?fd)) = Some (ino_of k ?q)"
        using fd by (rule sopen_fstat_ino) simp_all
      then obtain sb where sb: "fst (k_fstat ?k2 ?fd) = Some sb" "st_ino sb = ino_of k ?q"
        by auto
      have m4: "?FS (mlog ?k4)" using m2 by simp
      have n4: "nodes ?k4 = nodes k" by simp
      show ?thesis
      proof (cases "v0 = 0")
        case False
        with fd fs sb m4 show ?thesis
          by (simp add: activateBooters_efi_def Let_def split_beta)
      next
        case v: True
        have pc: "pathcpy (dirname ?p) = None \<or> pathcpy (dirname ?p) = Some (dirname ?p)"
          by (simp add: pathcpy_def)
        show ?thesis
        proof (cases "pathcpy (dirname ?p) = Some (dirname ?p) \<and> ?pfd \<noteq> -1")
          case False
          with pc fd fs sb m4 v show ?thesis
            by (auto simp: activateBooters_efi_def Let_def split_beta)
        next
          case True
          then have pfd: "?pfd \<noteq> -1" and pcs: "pathcpy (dirname ?p) = Some (dirname ?p)"
            by simp_all
          have "map_option st_ino (fst (k_fstat ?k5 ?pfd))
                  = Some (ino_of ?k4 (sopen_target ?k4 (dirname ?p)))"
            using pfd by (rule sopen_fstat_ino) simp_all
          moreover have "sopen_target ?k4 (dirname ?p) = sopen_target k (dirname ?p)"
            using dirname_absolute [OF a] by (rule sopen_target_absolute)
          moreover have "ino_of ?k4 (sopen_target k (dirname ?p))
                           = ino_of k (sopen_target k (dirname ?p))"
            using n4 by (rule ino_of_nodes)
          ultimately obtain psb where psb: "fst (k_fstat ?k5 ?pfd) = Some psb"
            "st_ino psb = ino_of k (sopen_target k (dirname ?p))"
            by auto
          have m6: "?FS (mlog (snd (k_close ?k6 ?pfd)))" using m4 by simp
          from fd fs sb v pcs pfd psb m6 show ?thesis
            by (simp add: activateBooters_efi_def Let_def split_beta)
        qed
      qed
    qed
  qed
qed

lemma schdir_frame [simp]: "mlog (snd (schdir k v p h)) = mlog k"
  by (simp add: schdir_def Let_def split_beta)

lemma schdir_olog:
  "extends_within {(q, f). f = O_RDONLY} (olog k) (olog (snd (schdir k v p h)))"
proof -
  have "extends_within {(q, f). f = O_RDONLY} (olog k)
          (olog (snd (schdirparent k v (Some (p @ ''/.'')) h False)))"
    by (rule schdirparent_olog) simp
  then show ?thesis by (simp add: schdir_def Let_def split_beta)
qed

lemma restoredir_frame [simp]:
  "mlog (snd (restoredir k s)) = mlog k" "olog (snd (restoredir k s)) = olog k"
  by (simp_all add: restoredir_def Let_def split_beta)

lemma BLSetVolumeFinderInfo_olog [simp]: "olog (snd (BLSetVolumeFinderInfo k a b)) = olog k"
  by (simp add: BLSetVolumeFinderInfo_def log_event_def split: option.splits)

lemma BLSetVolumeFinderInfo_mlog:
  "fst (BLSetVolumeFinderInfo k a b) \<noteq> 0 \<Longrightarrow> mlog (snd (BLSetVolumeFinderInfo k a b)) = mlog k"
  "fst (BLSetVolumeFinderInfo k a b) = 0 \<Longrightarrow>
     mlog (snd (BLSetVolumeFinderInfo k a b)) = mlog k @ [(OpBless a b, cwd_dev k, cwd k)]"
  by (auto simp: BLSetVolumeFinderInfo_def log_event_def EIO_def split: option.splits if_splits)

lemma activate_finish_proj [simp]:
  "fst (activate_finish r fd up k) = r"
  "fst (snd (activate_finish r fd up k)) = up"
  "mlog (snd (snd (activate_finish r fd up k))) = mlog k"
  "olog (snd (snd (activate_finish r fd up k))) = olog k"
  by (simp_all add: activate_finish_def)

lemma sopen_new_fd:
  assumes "is_open k y" "fst (sopen k v p fl m) \<noteq> -1"
  shows "fst (sopen k v p fl m) \<noteq> y"
proof -
  let ?k1 = "snd (schdirparent k v (Some p) True True)"
  from assms(2) have ok: "fst (fst (schdirparent k v (Some p) True True)) = 0"
    by (auto simp: sopen_def Let_def split_beta split: if_splits)
  have o: "is_open ?k1 y" using assms(1) by (rule schdirparent_keeps)
  from assms(2) ok new_fd_not_open [OF o] show ?thesis
    by (simp add: sopen_def Let_def split_beta schdirparent_child)
qed

lemma activateBooters_efi_keeps:
  assumes "is_open k y"
  shows "scope_dev (snd (activateBooters_efi k up v0)) y = scope_dev k y"
proof -
  let ?v = "curbootfd up" and ?p = "efidst up"
  let ?S1 = "sopen k ?v ?p O_RDONLY 0"
  let ?fd = "fst ?S1" and ?k1 = "snd ?S1"
  let ?k3 = "snd (k_fstat (snd (k_fullfsync ?k1 ?fd)) ?fd)"
  let ?k4 = "snd (k_close ?k3 ?fd)"
  let ?S2 = "sopen ?k4 ?v (dirname ?p) O_RDONLY 0"
  let ?pfd = "fst ?S2" and ?k5 = "snd ?S2"
  let ?k6 = "snd (k_fstat ?k5 ?pfd)"
  have o1: "is_open ?k1 y" "scope_dev ?k1 y = scope_dev k y"
    using assms by (simp_all add: sopen_keeps)
  then have o3: "is_open ?k3 y" "scope_dev ?k3 y = scope_dev k y" by simp_all
  have c4: "is_open ?k4 y \<and> scope_dev ?k4 y = scope_dev k y" if "?fd \<noteq> -1"
    using sopen_new_fd [OF assms that] o3 by (simp add: k_close_keeps)
  have o5: "is_open ?k6 y \<and> scope_dev ?k6 y = scope_dev k y" if "?fd \<noteq> -1"
    using c4 [OF that] by (simp add: sopen_keeps)
  have c7: "scope_dev (snd (k_close ?k6 ?pfd)) y = scope_dev k y"
    if "?fd \<noteq> -1" "?pfd \<noteq> -1"
  proof -
    have "is_open ?k4 y" using c4 [OF that(1)] by simp
    then have "?pfd \<noteq> y" using that(2) by (rule sopen_new_fd)
    then show ?thesis using o5 [OF that(1)] by (simp add: k_close_keeps)
  qed
  have o2: "scope_dev (snd (k_fullfsync ?k1 ?fd)) y = scope_dev k y" using o1 by simp
  show ?thesis
  proof (cases "?fd = -1")
    case True
    with o1 show ?thesis by (simp add: activateBooters_efi_def Let_def split_beta)
  next
    case fd: False
    have o4: "is_open ?k4 y" "scope_dev ?k4 y = scope_dev k y" using c4 [OF fd] by simp_all
    have o5': "scope_dev ?k5 y = scope_dev k y" using o4 by (simp add: sopen_keeps)
    have o6: "scope_dev ?k6 y = scope_dev k y" using o5 [OF fd] by simp
    show ?thesis
    proof (cases "?pfd = -1")
      case True
      with fd o1 o2 o3 o4 o5' o6 show ?thesis
        by (simp add: activateBooters_efi_def Let_def split_beta pathcpy_def
            split: option.splits)
    next
      case False
      with fd o1 o2 o3 o4 o5' o6 c7 [OF fd False] show ?thesis
        by (simp add: activateBooters_efi_def Let_def split_beta pathcpy_def
            split: option.splits)
    qed
  qed
qed

lemma schdir_cwd:
  assumes "fst (fst (schdir k v p h)) = 0" "absolute p" "scope_dev k v = Some d"
  shows "cwd (snd (schdir k v p h)) = dirname (p @ ''/.'')"
    and "cwd_dev (snd (schdir k v p h)) = d"
proof -
  let ?R = "schdirparent k v (Some (p @ ''/.'')) h False"
  from assms(1) have s: "schdir k v p h = ((fst (fst ?R), fst (snd (fst ?R))), snd ?R)"
    by (auto simp: schdir_def Let_def split_beta split: if_splits)
  with assms(1) have ok: "fst (fst ?R) = 0" by simp
  have "absolute (p @ ''/.'')" using assms(2) by (simp add: absolute_def)
  then have "absolute (dirname (p @ ''/.''))" by (rule dirname_absolute)
  then have "resolve k (dirname (p @ ''/.'')) = dirname (p @ ''/.'')" by (rule resolve_absolute)
  with schdirparent_cwd [OF ok] show "cwd (snd (schdir k v p h)) = dirname (p @ ''/.'')"
    by (simp add: s)
  from schdirparent_cwd_dev(1) [OF assms(3) ok] show "cwd_dev (snd (schdir k v p h)) = d"
    by (simp add: s)
qed

lemma activateBooters_tail_result:
  assumes e: "rpath (efibooter (caches up)) \<noteq> []" and a: "absolute (efidst up)"
    and m: "absolute (curMount up)" and sc: "scope_dev k (curbootfd up) = Some d"
  shows "case activateBooters_tail k up 0 of (r, up', k') \<Rightarrow>
           extends_within {(q, f). f = O_RDONLY} (olog k) (olog k')
         \<and> (r = 0 \<longrightarrow>
               up' = up\<lparr>changestate := activatedBooters\<rparr>
               \<and> (\<exists>d1. mlog k' = mlog k
                     @ [(OpFullFsync, d1, sopen_target k (efidst up)),
                        (OpBless (ino32 k (sopen_target k (dirname (efidst up))))
                                 (ino32 k (sopen_target k (efidst up))),
                         d, dirname (curMount up @ ''/.''))]))
         \<and> (r \<noteq> 0 \<longrightarrow>
               up' = up\<lparr>changestate := activatingEFIBooter\<rparr>
               \<and> (mlog k' = mlog k
                    \<or> (\<exists>d1. mlog k' = mlog k @ [(OpFullFsync, d1, sopen_target k (efidst up))])))"
proof -
  let ?A = "{(q, f). f = O_RDONLY}"
  let ?up2 = "up\<lparr>changestate := activatingEFIBooter\<rparr>"
  let ?E = "activateBooters_efi k ?up2 0"
  let ?k2 = "snd ?E"
  let ?q = "sopen_target k (efidst up)"
  have a2: "absolute (efidst ?up2)" using a by simp
  note res = activateBooters_efi_result [OF a2, of k 0]
  have ol: "extends_within ?A (olog k) (olog ?k2)" by (rule activateBooters_efi_olog)
  have t: "activateBooters_tail k up 0 =
             (case fst ?E of
                Inl fd \<Rightarrow> activate_finish (ELAST + 1) fd ?up2 ?k2
              | Inr w \<Rightarrow>
                 (let ((err, fd), k3) = schdir ?k2 (curbootfd ?up2) (curMount ?up2) True
                  in if err \<noteq> 0 then activate_finish (ELAST + 1) fd ?up2 k3
                     else
                      (let (rval, k4) = BLSetVolumeFinderInfo k3 (unat (fst w)) (unat (snd w))
                       in if rval \<noteq> 0 then activate_finish rval fd ?up2 k4
                          else
                           (let (_, k5) = restoredir k4 fd
                            in activate_finish rval (-1)
                                 (?up2\<lparr>changestate := activatedBooters\<rparr>) k5))))"
    using e by (simp add: activateBooters_tail_def Let_def split_beta split: sum.splits)
  have nz: "ELAST + 1 \<noteq> (0::int)" by (simp add: ELAST_def)
  show ?thesis
  proof (cases "fst ?E")
    case (Inl fd)
    with res have "mlog ?k2 = mlog k \<or> (\<exists>d. mlog ?k2 = mlog k @ [(OpFullFsync, d, ?q)])"
      by (simp add: split_beta)
    with ol nz show ?thesis by (simp add: t Inl split_beta)
  next
    case (Inr w)
    with res obtain d1 where m2: "mlog ?k2 = mlog k @ [(OpFullFsync, d1, ?q)]"
      and w1: "snd w = of_nat (ino_of k ?q)"
      and w0: "fst w = of_nat (ino_of k (sopen_target k (dirname (efidst up))))"
      by (auto simp: split_beta)
    let ?D = "schdir ?k2 (curbootfd ?up2) (curMount ?up2) True"
    let ?k3 = "snd ?D"
    let ?B = "BLSetVolumeFinderInfo ?k3 (unat (fst w)) (unat (snd w))"
    have o3: "extends_within ?A (olog k) (olog ?k3)"
      using ol schdir_olog by (rule extends_within_trans)
    have m3: "mlog ?k3 = mlog k @ [(OpFullFsync, d1, ?q)]" using m2 by simp
    have s2: "scope_dev ?k2 (curbootfd ?up2) = Some d"
      using activateBooters_efi_keeps [OF scope_dev_is_open [OF sc], of ?up2 0] sc by simp
    show ?thesis
    proof (cases "fst (fst ?D) \<noteq> 0")
      case True
      with o3 m3 nz show ?thesis by (simp add: t Inr split_beta)
    next
      case d0: False
      show ?thesis
      proof (cases "fst ?B = 0")
        case False
        then have "mlog (snd ?B) = mlog ?k3" by (rule BLSetVolumeFinderInfo_mlog(1))
        with False d0 o3 m3 show ?thesis by (simp add: t Inr split_beta Let_def)
      next
        case True
        have d0': "fst (fst ?D) = 0" using d0 by simp
        have m2': "absolute (curMount ?up2)" using m by simp
        note c = schdir_cwd [OF d0' m2' s2]
        from True have "mlog (snd ?B) = mlog ?k3
                     @ [(OpBless (unat (fst w)) (unat (snd w)), cwd_dev ?k3, cwd ?k3)]"
          by (rule BLSetVolumeFinderInfo_mlog(2))
        with True d0 o3 m3 w0 w1 c show ?thesis
          by (simp add: t Inr split_beta Let_def ino32_def)
      qed
    qed
  qed
qed

text \<open>
  C3, for the caches the parser produces (no Open Firmware booter) with an EFI booter
  staged at an absolute path on a helper mounted at an absolute path, the descriptor of the
  helper being open on device \<open>d\<close>. activateBooters opens files read-only and nothing
  else. When it returns 0 it has made two changes and no other: it has flushed the staged
  EFI booter, and after that it has written, in the root directory of the helper on device
  \<open>d\<close>, the finder info with the inode number of the booter's directory and the inode
  number of the booter; the state is then activatedBooters. When it does not return 0 the
  finder info has not been written and the state is activatingEFIBooter. No type/creator
  attribute is set.
\<close>

theorem activateBooters_efi_booter:
  assumes "rpath (ofbooter (caches up)) = []" "rpath (efibooter (caches up)) \<noteq> []"
    and "absolute (efidst up)" "absolute (curMount up)"
    and "scope_dev k (curbootfd up) = Some d"
  shows "case activateBooters k up of (r, up', k') \<Rightarrow>
           extends_within {(q, f). f = O_RDONLY} (olog k) (olog k')
         \<and> (r = 0 \<longrightarrow>
               up' = up\<lparr>changestate := activatedBooters\<rparr>
               \<and> (\<exists>d1. mlog k' = mlog k
                     @ [(OpFullFsync, d1, sopen_target k (efidst up)),
                        (OpBless (ino32 k (sopen_target k (dirname (efidst up))))
                                 (ino32 k (sopen_target k (efidst up))),
                         d, dirname (curMount up @ ''/.''))]))
         \<and> (r \<noteq> 0 \<longrightarrow>
               up' = up\<lparr>changestate := activatingEFIBooter\<rparr>
               \<and> (mlog k' = mlog k
                    \<or> (\<exists>d1. mlog k' = mlog k @ [(OpFullFsync, d1, sopen_target k (efidst up))])))"
proof -
  let ?up1 = "up\<lparr>changestate := activatingOFBooter\<rparr>"
  have t: "activateBooters k up = activateBooters_tail k ?up1 0"
    using assms(1) by (rule activateBooters_no_of_booter)
  have e: "rpath (efibooter (caches ?up1)) \<noteq> []" using assms(2) by simp
  have a: "absolute (efidst ?up1)" using assms(3) by simp
  have m: "absolute (curMount ?up1)" using assms(4) by simp
  have s: "scope_dev k (curbootfd ?up1) = Some d" using assms(5) by simp
  from activateBooters_tail_result [OF e a m s] show ?thesis
    unfolding t by simp
qed

theorem activateBooters_efi_booter_witness:
  "rpath (ofbooter (caches ex_up_staged)) = []
   \<and> rpath (efibooter (caches ex_up_staged)) \<noteq> []
   \<and> absolute (efidst ex_up_staged) \<and> absolute (curMount ex_up_staged)
   \<and> scope_dev ex_k_booted (curbootfd ex_up_staged) = Some 2
   \<and> fst (activateBooters ex_k_booted ex_up_staged) = 0
   \<and> fst (snd (activateBooters ex_k_booted ex_up_staged))
       = ex_up_staged\<lparr>changestate := activatedBooters\<rparr>
   \<and> sopen_target ex_k_booted (efidst ex_up_staged) = ''/Volumes/boot/CS/boot.efi''
   \<and> sopen_target ex_k_booted (dirname (efidst ex_up_staged)) = ''/Volumes/boot/CS''
   \<and> ino32 ex_k_booted (sopen_target ex_k_booted (efidst ex_up_staged)) = 30
   \<and> ino32 ex_k_booted (sopen_target ex_k_booted (dirname (efidst ex_up_staged))) = 29
   \<and> dirname (curMount ex_up_staged @ ''/.'') = ''/Volumes/boot''
   \<and> (\<exists>d1. mlog (snd (snd (activateBooters ex_k_booted ex_up_staged)))
         = mlog ex_k_booted
           @ [(OpFullFsync, d1, sopen_target ex_k_booted (efidst ex_up_staged)),
              (OpBless (ino32 ex_k_booted (sopen_target ex_k_booted (dirname (efidst ex_up_staged))))
                       (ino32 ex_k_booted (sopen_target ex_k_booted (efidst ex_up_staged))),
               2, dirname (curMount ex_up_staged @ ''/.''))])"
proof -
  have 1: "rpath (ofbooter (caches ex_up_staged)) = []" by code_simp
  have 2: "rpath (efibooter (caches ex_up_staged)) \<noteq> []" by code_simp
  have 3: "absolute (efidst ex_up_staged)" "absolute (curMount ex_up_staged)" by code_simp+
  have 4: "scope_dev ex_k_booted (curbootfd ex_up_staged) = Some 2" by code_simp
  have 5: "fst (activateBooters ex_k_booted ex_up_staged) = 0" by code_simp
  have 6: "sopen_target ex_k_booted (efidst ex_up_staged) = ''/Volumes/boot/CS/boot.efi''"
    "sopen_target ex_k_booted (dirname (efidst ex_up_staged)) = ''/Volumes/boot/CS''"
    by code_simp+
  have 7: "ino32 ex_k_booted (sopen_target ex_k_booted (efidst ex_up_staged)) = 30"
    "ino32 ex_k_booted (sopen_target ex_k_booted (dirname (efidst ex_up_staged))) = 29"
    by code_simp+
  have 8: "dirname (curMount ex_up_staged @ ''/.'') = ''/Volumes/boot''" by code_simp
  from activateBooters_efi_booter [OF 1 2 3 4] 5
  have 9: "fst (snd (activateBooters ex_k_booted ex_up_staged))
             = ex_up_staged\<lparr>changestate := activatedBooters\<rparr>"
    and 10: "\<exists>d1. mlog (snd (snd (activateBooters ex_k_booted ex_up_staged)))
         = mlog ex_k_booted
           @ [(OpFullFsync, d1, sopen_target ex_k_booted (efidst ex_up_staged)),
              (OpBless (ino32 ex_k_booted (sopen_target ex_k_booted (dirname (efidst ex_up_staged))))
                       (ino32 ex_k_booted (sopen_target ex_k_booted (efidst ex_up_staged))),
               2, dirname (curMount ex_up_staged @ ''/.''))]"
    by (simp_all add: split_beta)
  from 1 2 3 4 5 6 7 8 9 10 show ?thesis by (intro conjI)
qed

text \<open>
  C3, as it is stated: every present booter gets its type/creator attribute and the state
  activatedBooters is reached before the finder info is written. The host names an EFI
  booter and it is staged on the helper: activateBooters returns 0 in state
  activatedBooters, every open it has made is read-only, and its changes are the flush and
  the finder info; no attribute has been set.
\<close>

theorem activateBooters_sets_no_type_creator:
  "rpath (efibooter (caches ex_up_staged)) = ''/CS/boot.efi''
   \<and> (case activateBooters ex_k_booted ex_up_staged of
        (r, up, k) \<Rightarrow> (r, changestate up, mlog k, map snd (olog k)))
      = (0, activatedBooters,
         [(OpFullFsync, 2, ''/Volumes/boot/CS/boot.efi''),
          (OpBless 29 30, 2, ''/Volumes/boot'')],
         [O_RDONLY, O_RDONLY, O_RDONLY, O_RDONLY, O_RDONLY, O_RDONLY, O_RDONLY, O_RDONLY])"
  by code_simp

end
